theory Spec2Isabelle
  imports Main
begin

section \<open>Strings and the library functions the planner calls\<close>

text \<open>
  The program is \<^verbatim>\<open>main.py\<close>: \<^verbatim>\<open>parse_huggingface_model_url\<close> turns a URL into
  the list of files to fetch, \<^verbatim>\<open>download_in_thread\<close> runs the external downloader
  on each of them. A Python \<^verbatim>\<open>str\<close> is modelled as a \<open>string\<close>: a list of
  8-bit characters, read as the code points below 256. Among these the decimal digits
  (what \<^verbatim>\<open>\d\<close> matches) are \<open>0\<close> to \<open>9\<close> only.

  \<^verbatim>\<open>os.path\<close> is modelled by \<^verbatim>\<open>posixpath\<close> (separator \<open>/\<close>). \<^verbatim>\<open>ntpath\<close>
  computes the same \<^verbatim>\<open>basename\<close> and \<^verbatim>\<open>splitext\<close> on every path that has no
  backslash and does not begin with two separators.
\<close>

definition LF :: char where
  "LF = CHR 0x0A"

definition is_digit :: "char \<Rightarrow> bool" where
  "is_digit c = (c \<in> set ''0123456789'')"

text \<open>\<^verbatim>\<open>s.rfind(c)\<close>: the index of the last occurrence of \<open>c\<close>, or \<open>-1\<close>.\<close>

definition rfind :: "string \<Rightarrow> char \<Rightarrow> int" where
  "rfind s c =
     (if c \<in> set s
      then int (length s) - 1 - int (length (takeWhile (\<lambda>x. x \<noteq> c) (rev s)))
      else - 1)"

text \<open>The slices \<^verbatim>\<open>s[:i]\<close> and \<^verbatim>\<open>s[i:]\<close>; a negative index counts from the end.\<close>

definition slice_to :: "string \<Rightarrow> int \<Rightarrow> string" where
  "slice_to s i = (if i < 0 then take (nat (int (length s) + i)) s else take (nat i) s)"

definition slice_from :: "string \<Rightarrow> int \<Rightarrow> string" where
  "slice_from s i = (if i < 0 then drop (nat (int (length s) + i)) s else drop (nat i) s)"

text \<open>\<^verbatim>\<open>s.strip(c)\<close> for a single character \<open>c\<close>.\<close>

definition strip_char :: "char \<Rightarrow> string \<Rightarrow> string" where
  "strip_char c s = rev (dropWhile (\<lambda>x. x = c) (rev (dropWhile (\<lambda>x. x = c) s)))"

text \<open>\<^verbatim>\<open>s.split(c)\<close> for a single character \<open>c\<close>: never an empty list.\<close>

fun split :: "char \<Rightarrow> string \<Rightarrow> string list" where
  "split c [] = [[]]"
| "split c (x # xs) =
     (if x = c then [] # split c xs
      else (let r = split c xs in (x # hd r) # tl r))"

text \<open>
  \<^verbatim>\<open>posixpath.basename(p)\<close>:
  \<^verbatim>\<open>i = p.rfind('/') + 1; return p[i:]\<close>
\<close>

definition basename :: "string \<Rightarrow> string" where
  "basename p = slice_from p (rfind p (CHR ''/'') + 1)"

text \<open>
  \<^verbatim>\<open>posixpath.splitext(p)\<close>, that is \<^verbatim>\<open>genericpath._splitext(p, '/', None, '.')\<close>:
  \<^verbatim>\<open>
  sepIndex = p.rfind(sep)
  dotIndex = p.rfind(extsep)
  if dotIndex > sepIndex:
      filenameIndex = sepIndex + 1
      while filenameIndex < dotIndex:
          if p[filenameIndex:filenameIndex+1] != extsep:
              return p[:dotIndex], p[dotIndex:]
          filenameIndex += 1
  return p, p[:0]
  \<close>
  The loop looks for a character other than the dot between the last separator and
  the last dot; \<open>all_dots\<close> is the loop running to its end without finding one.
\<close>

fun all_dots :: "string \<Rightarrow> bool" where
  "all_dots [] = True"
| "all_dots (x # xs) = (if x \<noteq> CHR ''.'' then False else all_dots xs)"

definition splitext :: "string \<Rightarrow> string \<times> string" where
  "splitext p =
     (let sepIndex = rfind p (CHR ''/'');
          dotIndex = rfind p (CHR ''.'')
      in if dotIndex > sepIndex
            \<and> \<not> all_dots (take (nat (dotIndex - (sepIndex + 1))) (drop (nat (sepIndex + 1)) p))
         then (slice_to p dotIndex, slice_from p dotIndex)
         else (p, []))"

text \<open>
  \<^verbatim>\<open>re.match(r"^(?P<base>.+)-(?P<part>\d{5})-of-(?P<total>\d{5})$", s)\<close>.
  The tail \<^verbatim>\<open>-ddddd-of-ddddd\<close> has 15 characters and stands at the end of \<open>s\<close>, or
  before one final line feed (where \<^verbatim>\<open>$\<close> matches too); \<^verbatim>\<open>.+\<close> is everything before
  it, at least one character and no line feed. The result is the three groups.
\<close>

definition re_match :: "string \<Rightarrow> (string \<times> string \<times> string) option" where
  "re_match s =
     (let t = (if s \<noteq> [] \<and> last s = LF then butlast s else s);
          n = length t;
          base = take (n - 15) t;
          tail = drop (n - 15) t;
          g_part = take 5 (drop 1 tail);
          g_total = drop 10 tail
      in if 16 \<le> n \<and> LF \<notin> set base
            \<and> take 1 tail = ''-'' \<and> list_all is_digit g_part
            \<and> take 4 (drop 6 tail) = ''-of-'' \<and> list_all is_digit g_total
         then Some (base, g_part, g_total)
         else None)"

text \<open>
  What the regular expression means, stated on the string: \<open>stem\<close> is \<open>base\<close>, a
  hyphen, five digits, \<open>-of-\<close> and five digits, with at most one line feed after
  them, and \<open>base\<close> is not empty and has no line feed. Lemma \<open>re_match_multipart\<close>
  below shows that \<open>re_match\<close> succeeds exactly on these strings, with these groups.
\<close>

definition multipart_stem :: "string \<Rightarrow> string \<Rightarrow> string \<Rightarrow> string \<Rightarrow> bool" where
  "multipart_stem stem base part tot \<longleftrightarrow>
     base \<noteq> [] \<and> LF \<notin> set base
     \<and> length part = 5 \<and> list_all is_digit part
     \<and> length tot = 5 \<and> list_all is_digit tot
     \<and> (stem = base @ ''-'' @ part @ ''-of-'' @ tot
        \<or> stem = base @ ''-'' @ part @ ''-of-'' @ tot @ [LF])"

text \<open>
  \<^verbatim>\<open>int(s)\<close> on a string of decimal digits, the only strings the planner converts
  (group \<open>total\<close> of the match). The value is never negative, so it is a \<open>nat\<close>.
\<close>

definition digit_val :: "char \<Rightarrow> nat" where
  "digit_val c = of_char c - 48"

definition int_digits :: "string \<Rightarrow> nat" where
  "int_digits s = foldl (\<lambda>a c. 10 * a + digit_val c) 0 s"

text \<open>\<^verbatim>\<open>str(n)\<close> for \<open>n \<ge> 0\<close>, and for any integer.\<close>

definition digit_char :: "nat \<Rightarrow> char" where
  "digit_char d = ''0123456789'' ! d"

fun str_nat :: "nat \<Rightarrow> string" where
  "str_nat n = (if n < 10 then [digit_char n] else str_nat (n div 10) @ [digit_char (n mod 10)])"

definition str_int :: "int \<Rightarrow> string" where
  "str_int i = (if i < 0 then CHR ''-'' # str_nat (nat (- i)) else str_nat (nat i))"

text \<open>
  \<^verbatim>\<open>s.zfill(width)\<close>: zeros on the left up to the width, after a leading sign.
  \<^verbatim>\<open>f"{n:05d}"\<close> gives the same string as \<^verbatim>\<open>str(n).zfill(5)\<close>.
\<close>

definition zfill :: "nat \<Rightarrow> string \<Rightarrow> string" where
  "zfill width s =
     (case s of
        c # r \<Rightarrow>
          if c = CHR ''+'' \<or> c = CHR ''-''
          then c # replicate (width - length s) (CHR ''0'') @ r
          else replicate (width - length s) (CHR ''0'') @ s
      | [] \<Rightarrow> replicate width (CHR ''0''))"

definition format_05d :: "nat \<Rightarrow> string" where
  "format_05d n = zfill 5 (str_nat n)"

section \<open>The planner: \<^verbatim>\<open>parse_huggingface_model_url\<close>\<close>

text \<open>
  What the planner reads of \<^verbatim>\<open>urllib.parse.urlparse(url)\<close>. The library function
  is a parameter of the model, \<open>urlparse\<close>, with \<open>None\<close> for a \<^verbatim>\<open>ValueError\<close>.
\<close>

record parsed_uri =
  scheme :: string
  netloc :: string
  path :: string

text \<open>One entry of the result list (a dictionary with these five keys).\<close>

record model_info =
  DownloadUrl :: string
  Author :: string
  ModelRepo :: string
  ModelName :: string
  Extension :: string

text \<open>
  \<^verbatim>\<open>base_url = url[:url.rfind('/')] if '/' in url else url\<close>
\<close>

definition base_url_of :: "string \<Rightarrow> string" where
  "base_url_of url = (if CHR ''/'' \<in> set url then slice_to url (rfind url (CHR ''/'')) else url)"

text \<open>The body of the loop \<^verbatim>\<open>for i in range(1, total_parts + 1)\<close>.\<close>

definition part_info ::
  "string \<Rightarrow> string \<Rightarrow> string \<Rightarrow> string \<Rightarrow> string \<Rightarrow> nat \<Rightarrow> nat \<Rightarrow> model_info" where
  "part_info base_url author model_repo base_name extension total_parts i =
     (let part_str = zfill 5 (str_nat i);
          new_model_name = base_name @ ''-'' @ part_str @ ''-of-'' @ format_05d total_parts;
          download_url = base_url @ ''/'' @ new_model_name @ extension
      in \<lparr>DownloadUrl = download_url, Author = author, ModelRepo = model_repo,
          ModelName = new_model_name, Extension = extension\<rparr>)"

text \<open>
  The function returns the lines it prints and its value: \<open>None\<close> for Python's
  \<^verbatim>\<open>None\<close>, \<open>Some\<close> of the list otherwise.
\<close>

definition parse_huggingface_model_url ::
  "(string \<Rightarrow> parsed_uri option) \<Rightarrow> string \<Rightarrow> string list \<times> model_info list option" where
  "parse_huggingface_model_url urlparse url =
     (case urlparse url of
        None \<Rightarrow> ([''Invalid URL.''], None)
      | Some parsed \<Rightarrow>
          if scheme parsed = [] \<or> netloc parsed = [] then ([''Invalid URL.''], None)
          else
            let segments = split (CHR ''/'') (strip_char (CHR ''/'') (path parsed)) in
            if length segments < 2 then ([''URL structure is invalid.''], None)
            else
              let author = segments ! 0;
                  model_repo = segments ! 1;
                  file_path = path parsed;
                  filename_with_extension = basename file_path;
                  (filename_without_extension, extension) = splitext filename_with_extension;
                  base_url = base_url_of url
              in (case re_match filename_without_extension of
                   Some (base_name, g_part, g_total) \<Rightarrow>
                     let total_parts = int_digits g_total
                     in ([], Some (map (part_info base_url author model_repo base_name
                                          extension total_parts)
                                     [1 ..< total_parts + 1]))
                 | None \<Rightarrow>
                     ([], Some [\<lparr>DownloadUrl = url, Author = author, ModelRepo = model_repo,
                                 ModelName = filename_without_extension,
                                 Extension = extension\<rparr>])))"

text \<open>
  Values of \<^verbatim>\<open>urllib.parse.urlparse\<close> at the URLs of the examples in this file:
  the scheme before \<open>://\<close>, the network location up to the next \<open>/\<close>, and the
  path from there on; a URL with no \<open>://\<close> has neither scheme nor network location
  and is all path. Any other URL is not among the examples and is given \<open>None\<close> here.
\<close>

definition urlparse_examples :: "string \<Rightarrow> parsed_uri option" where
  "urlparse_examples url =
     (if url = ''https://host/alice/modelX/file-00002-of-00004.bin''
      then Some \<lparr>scheme = ''https'', netloc = ''host'',
                 path = ''/alice/modelX/file-00002-of-00004.bin''\<rparr>
      else if url = ''https://host/alice/modelX/weights.bin''
      then Some \<lparr>scheme = ''https'', netloc = ''host'', path = ''/alice/modelX/weights.bin''\<rparr>
      else if url = ''https://host/alice/modelX/file-00001-of-00000.bin''
      then Some \<lparr>scheme = ''https'', netloc = ''host'',
                 path = ''/alice/modelX/file-00001-of-00000.bin''\<rparr>
      else if url = ''https://host/alice/modelX''
      then Some \<lparr>scheme = ''https'', netloc = ''host'', path = ''/alice/modelX''\<rparr>
      else if url = ''https://host/alice/modelX/''
      then Some \<lparr>scheme = ''https'', netloc = ''host'', path = ''/alice/modelX/''\<rparr>
      else if url = ''https://host/alice/part-00001-of-00003''
      then Some \<lparr>scheme = ''https'', netloc = ''host'', path = ''/alice/part-00001-of-00003''\<rparr>
      else if url = ''https://host/alice/modelX/file-00002-of-00004.bin/''
      then Some \<lparr>scheme = ''https'', netloc = ''host'',
                 path = ''/alice/modelX/file-00002-of-00004.bin/''\<rparr>
      else if url = ''https://host/alice/modelX/weights.bin/''
      then Some \<lparr>scheme = ''https'', netloc = ''host'', path = ''/alice/modelX/weights.bin/''\<rparr>
      else if url = ''https://host/alice/modelX/file-00001-of-00000.bin/''
      then Some \<lparr>scheme = ''https'', netloc = ''host'',
                 path = ''/alice/modelX/file-00001-of-00000.bin/''\<rparr>
      else if url = ''https://host/alice''
      then Some \<lparr>scheme = ''https'', netloc = ''host'', path = ''/alice''\<rparr>
      else if url = ''host/alice/modelX''
      then Some \<lparr>scheme = [], netloc = [], path = ''host/alice/modelX''\<rparr>
      else None)"

section \<open>The orchestrator: \<^verbatim>\<open>download_in_thread\<close>\<close>

text \<open>
  The worker thread runs \<^verbatim>\<open>download_in_thread\<close>; it reads the platform, runs
  one external process per entry of the plan and shares \<^verbatim>\<open>stop_event\<close> with the
  thread of the window. All of that is input of the model.

  The platform: \<^verbatim>\<open>os.environ.get('APPDATA')\<close>, \<^verbatim>\<open>os.path.expanduser("~")\<close>,
  \<^verbatim>\<open>os.path.join\<close>, \<^verbatim>\<open>os.path.exists\<close> and \<^verbatim>\<open>os.name\<close>.
\<close>

record os_env =
  environ_APPDATA :: "string option"
  home_dir :: string
  path_join :: "string \<Rightarrow> string list \<Rightarrow> string"
  path_exists :: "string \<Rightarrow> bool"
  os_name :: string

text \<open>
  One evaluation of the loop condition \<^verbatim>\<open>process.poll() is None\<close>: the process has
  exited, or it is alive, and then the iteration reads \<^verbatim>\<open>process.stdout.readline()\<close>
  (the string) and looks at \<^verbatim>\<open>stop_event\<close>; the boolean says whether the other
  thread has set the event since the worker last looked at it.
\<close>

datatype poll_obs = Exited | Alive string bool

text \<open>
  What one entry of the plan meets: whether the other thread sets the event before the
  check that opens the iteration (\<open>stop_before\<close>), the polls of its process, whether
  \<^verbatim>\<open>process.wait(timeout=5)\<close> raises \<^verbatim>\<open>TimeoutExpired\<close>, whether the other thread
  sets the event between the end of the poll loop and the check that follows it
  (\<open>stop_after\<close>), the exit code and the text left on standard error.
  During a run the other thread only ever sets the event (\<^verbatim>\<open>on_stop_click\<close>);
  \<^verbatim>\<open>on_start_click\<close>, which clears it, returns at once while a run is active.
\<close>

record task_env =
  stop_before :: bool
  polls :: "nat \<Rightarrow> poll_obs"
  wait_times_out :: bool
  stop_after :: bool
  returncode :: int
  stderr_text :: string

text \<open>
  The state the worker changes: the fields \<^verbatim>\<open>downloading\<close>, \<^verbatim>\<open>aria2c_process\<close>
  and \<^verbatim>\<open>stop_event\<close> of the application object, the messages it has put on
  \<^verbatim>\<open>log_queue\<close>, and its calls of \<^verbatim>\<open>subprocess.Popen\<close>, of the methods of a
  process and of \<^verbatim>\<open>os.makedirs\<close>, in order. A process is named by its position in
  \<open>spawned\<close>. \<^verbatim>\<open>os.makedirs\<close> and \<^verbatim>\<open>subprocess.Popen\<close> are taken to succeed:
  the function has no handler for their exceptions.
\<close>

datatype proc_call = Terminate | Wait nat | Kill

record popen_call =
  args :: "string list"
  creationflags :: nat

record app =
  downloading :: bool
  aria2c_process :: "nat option"
  stop_event :: bool
  log_queue :: "string list"
  spawned :: "popen_call list"
  proc_calls :: "(nat \<times> proc_call) list"
  made_dirs :: "string list"

definition CREATE_NO_WINDOW :: nat where
  "CREATE_NO_WINDOW = 0x08000000"

text \<open>\<^verbatim>\<open>s.strip()\<close>: the characters below 256 for which \<^verbatim>\<open>isspace()\<close> holds.\<close>

definition is_space :: "char \<Rightarrow> bool" where
  "is_space c =
     (c \<in> set [CHR 0x09, CHR 0x0A, CHR 0x0B, CHR 0x0C, CHR 0x0D, CHR 0x1C, CHR 0x1D,
                CHR 0x1E, CHR 0x1F, CHR 0x20, CHR 0x85, CHR 0xA0])"

definition strip_ws :: "string \<Rightarrow> string" where
  "strip_ws s = rev (dropWhile is_space (rev (dropWhile is_space s)))"

definition put :: "string \<Rightarrow> app \<Rightarrow> app" where
  "put msg s = s\<lparr>log_queue := log_queue s @ [msg]\<rparr>"

definition set_process :: "nat option \<Rightarrow> app \<Rightarrow> app" where
  "set_process process s = s\<lparr>aria2c_process := process\<rparr>"

text \<open>
  \<^verbatim>\<open>set_downloading_state\<close> also relabels the button and enables or disables the
  entry fields; only the flag is modelled.
\<close>

definition set_downloading_state :: "bool \<Rightarrow> app \<Rightarrow> app" where
  "set_downloading_state is_downloading s = s\<lparr>downloading := is_downloading\<rparr>"

text \<open>
  \<^verbatim>\<open>stop_event.is_set()\<close> sees the event as the worker left it, or set by the other
  thread in the meantime.
\<close>

definition observe_stop :: "bool \<Rightarrow> app \<Rightarrow> app" where
  "observe_stop set_meanwhile s = s\<lparr>stop_event := stop_event s \<or> set_meanwhile\<rparr>"

definition call :: "nat \<Rightarrow> proc_call \<Rightarrow> app \<Rightarrow> app" where
  "call process c s = s\<lparr>proc_calls := proc_calls s @ [(process, c)]\<rparr>"

text \<open>
  The branch of the poll loop taken when the event is set:
  \<^verbatim>\<open>
  log_queue.put("Stop signal received. Terminating process gracefully...")
  process.terminate()
  try:
      process.wait(timeout=5)
  except subprocess.TimeoutExpired:
      log_queue.put("Process did not exit in time; killing it now...")
      process.kill()
  break
  \<close>
\<close>

definition stop_process :: "task_env \<Rightarrow> nat \<Rightarrow> app \<Rightarrow> app" where
  "stop_process e process s =
     (let s1 = put ''Stop signal received. Terminating process gracefully...'' s;
          s2 = call process Terminate s1;
          s3 = call process (Wait 5) s2
      in if wait_times_out e
         then call process Kill (put ''Process did not exit in time; killing it now...'' s3)
         else s3)"

text \<open>
  The poll loop, \<^verbatim>\<open>while process.poll() is None: ...\<close>, from its \<open>n\<close>-th
  evaluation of the condition. It runs for as long as the process is alive and the
  event is not set: the result \<open>None\<close> is the loop that never ends. The pause
  \<^verbatim>\<open>time.sleep(0.1)\<close> that ends an iteration changes nothing of the state.
\<close>

partial_function (option) poll_loop :: "task_env \<Rightarrow> nat \<Rightarrow> nat \<Rightarrow> app \<Rightarrow> app option" where
  "poll_loop e process n s =
     (case polls e n of
        Exited \<Rightarrow> Some s
      | Alive output set_meanwhile \<Rightarrow>
          (let s1 = (if output \<noteq> [] then put (strip_ws output) s else s);
               s2 = observe_stop set_meanwhile s1
           in if stop_event s2 then Some (stop_process e process s2)
              else poll_loop e process (Suc n) s2))"

declare poll_loop.simps [code]

text \<open>
  The body of \<^verbatim>\<open>for model in model_info_array\<close>, in three parts. First the check
  of the event, and when it is not set the directory, the message and the process
  (lines 176 to 205). The call of \<^verbatim>\<open>subprocess.Popen\<close> is
  \<^verbatim>\<open>
  output_path = os.path.join(download_directory, model["Author"], model["ModelRepo"])
  output_file = f"{model['ModelName']}{model['Extension']}"
  args = [aria2c_path, "-x", str(sessions), "-s", str(sessions), model["DownloadUrl"],
          "--file-allocation=trunc", "-d", output_path, "-o", output_file]
  creationflags = 0
  if os.name == 'nt':
      creationflags = subprocess.CREATE_NO_WINDOW
  process = subprocess.Popen(args, stdout=subprocess.PIPE, stderr=subprocess.PIPE,
                             text=True, creationflags=creationflags)
  \<close>
\<close>

definition output_path_of :: "os_env \<Rightarrow> string \<Rightarrow> model_info \<Rightarrow> string" where
  "output_path_of os download_directory model =
     path_join os download_directory [Author model, ModelRepo model]"

definition aria2c_call :: "os_env \<Rightarrow> string \<Rightarrow> string \<Rightarrow> int \<Rightarrow> model_info \<Rightarrow> popen_call" where
  "aria2c_call os aria2c_path download_directory sessions model =
     (let output_path = output_path_of os download_directory model;
          output_file = ModelName model @ Extension model;
          arg_list = [aria2c_path, ''-x'', str_int sessions, ''-s'', str_int sessions,
                      DownloadUrl model, ''--file-allocation=trunc'',
                      ''-d'', output_path, ''-o'', output_file];
          flags = (if os_name os = ''nt'' then CREATE_NO_WINDOW else 0)
      in \<lparr>args = arg_list, creationflags = flags\<rparr>)"

text \<open>
  The result of \<open>start_model\<close> is the state and the new process, or \<open>None\<close> in its
  place for \<^verbatim>\<open>break\<close>.
\<close>

definition start_model ::
  "os_env \<Rightarrow> task_env \<Rightarrow> string \<Rightarrow> string \<Rightarrow> int \<Rightarrow> model_info \<Rightarrow> app \<Rightarrow> app \<times> nat option" where
  "start_model os e aria2c_path download_directory sessions model s =
     (let s0 = observe_stop (stop_before e) s in
      if stop_event s0
      then (put (''Download cancelled for: '' @ ModelName model
                   @ '' (and subsequent downloads)'') s0, None)
      else
        let s1 = s0\<lparr>made_dirs := made_dirs s0 @ [output_path_of os download_directory model]\<rparr>;
            s2 = put (''Running aria2c for: '' @ ModelName model) s1;
            process = length (spawned s2);
            s3 = s2\<lparr>spawned := spawned s2
                          @ [aria2c_call os aria2c_path download_directory sessions model]\<rparr>
        in (set_process (Some process) s3, Some process))"

text \<open>
  After the poll loop (lines 222 to 236): \<open>True\<close> for \<^verbatim>\<open>break\<close>, \<open>False\<close> for
  the end of the body, which goes on with the next entry.
\<close>

definition finish_model :: "task_env \<Rightarrow> model_info \<Rightarrow> app \<Rightarrow> bool \<times> app" where
  "finish_model e model s =
     (let s0 = observe_stop (stop_after e) s in
      if stop_event s0 then (True, s0\<lparr>stop_event := False\<rparr>)
      else
        let s1 = (if returncode e = 0
                  then put (''Download finished for: '' @ ModelName model) s0
                  else put (''aria2c error during download '' @ ModelName model @ '': ''
                              @ strip_ws (stderr_text e)) s0)
        in (False, set_process None s1))"

definition download_model ::
  "os_env \<Rightarrow> task_env \<Rightarrow> string \<Rightarrow> string \<Rightarrow> int \<Rightarrow> model_info \<Rightarrow> app
     \<Rightarrow> (bool \<times> app) option" where
  "download_model os e aria2c_path download_directory sessions model s =
     (case start_model os e aria2c_path download_directory sessions model s of
        (s1, None) \<Rightarrow> Some (True, s1)
      | (s1, Some process) \<Rightarrow>
          (case poll_loop e process 0 s1 of
             None \<Rightarrow> None
           | Some s2 \<Rightarrow> Some (finish_model e model s2)))"

text \<open>
  The loop over the plan; \<open>te k\<close> is what the \<open>k\<close>-th entry meets. The entries are
  taken in order, and \<^verbatim>\<open>break\<close> leaves the rest untouched.
\<close>

fun for_models ::
  "os_env \<Rightarrow> (nat \<Rightarrow> task_env) \<Rightarrow> string \<Rightarrow> string \<Rightarrow> int \<Rightarrow> nat \<Rightarrow> model_info list \<Rightarrow> app
     \<Rightarrow> app option" where
  "for_models os te aria2c_path download_directory sessions k [] s = Some s"
| "for_models os te aria2c_path download_directory sessions k (model # rest) s =
     (case download_model os (te k) aria2c_path download_directory sessions model s of
        None \<Rightarrow> None
      | Some (stop, s1) \<Rightarrow>
          if stop then Some s1
          else for_models os te aria2c_path download_directory sessions (Suc k) rest s1)"

definition aria2c_path_of :: "os_env \<Rightarrow> string" where
  "aria2c_path_of os =
     (let appdata_path =
            (case environ_APPDATA os of
               None \<Rightarrow> home_dir os
             | Some a \<Rightarrow> if a = [] then home_dir os else a);
          config_file_dir = path_join os appdata_path [''HFModelDownloader'']
      in path_join os config_file_dir [''aria2c.exe''])"

text \<open>
  The whole function. The plan is the value of the planner as the window kept it
  (\<^verbatim>\<open>self.parsed_model_info\<close>), so it may be \<open>None\<close>; \<^verbatim>\<open>not model_info_array\<close>
  holds for \<open>None\<close> and for the empty list.
\<close>

definition download_in_thread ::
  "os_env \<Rightarrow> (nat \<Rightarrow> task_env) \<Rightarrow> model_info list option \<Rightarrow> string \<Rightarrow> int \<Rightarrow> app
     \<Rightarrow> app option" where
  "download_in_thread os te model_info_array download_directory sessions s =
     (let aria2c_path = aria2c_path_of os in
      if \<not> path_exists os aria2c_path
      then Some (set_downloading_state False
                   (put ''aria2c.exe not found in the configuration directory.'' s))
      else
        (case model_info_array of
           None \<Rightarrow>
             Some (set_downloading_state False (put ''No model information to download.'' s))
         | Some [] \<Rightarrow>
             Some (set_downloading_state False (put ''No model information to download.'' s))
         | Some (m # ms) \<Rightarrow>
             if download_directory = []
             then Some (set_downloading_state False
                          (put ''Destination directory has not been set.'' s))
             else
               (case for_models os te aria2c_path download_directory sessions 0 (m # ms) s of
                  None \<Rightarrow> None
                | Some s1 \<Rightarrow>
                    Some (set_downloading_state False
                            (put ''Download finished or cancelled.'' s1)))))"

section \<open>Runs of the orchestrator\<close>

text \<open>
  Words for what a process does, used to state the theorems. A poll is
  \<open>alive_unstopped\<close> when it finds the process alive and the event not set by the
  other thread. The process \<open>exits_after e n\<close> when \<open>n\<close> such polls are followed by
  one that finds it exited; the event is \<open>stopped_at e n\<close> when \<open>n\<close> such polls are
  followed by one that finds the process alive and the event set. An entry
  \<open>completes\<close> when the event is not set before its first check, its process exits,
  and the event is not set before the check that follows the poll loop.
  \<open>forwarded e m n\<close> are the messages the polls \<open>m\<close> to \<open>n - 1\<close> put on the queue:
  each line read from standard output that is not empty, stripped.
\<close>

definition alive_unstopped :: "poll_obs \<Rightarrow> bool" where
  "alive_unstopped p = (case p of Exited \<Rightarrow> False | Alive output set_meanwhile \<Rightarrow> \<not> set_meanwhile)"

definition exits_after :: "task_env \<Rightarrow> nat \<Rightarrow> bool" where
  "exits_after e n \<longleftrightarrow> (\<forall>i<n. alive_unstopped (polls e i)) \<and> polls e n = Exited"

definition stopped_at :: "task_env \<Rightarrow> nat \<Rightarrow> bool" where
  "stopped_at e n \<longleftrightarrow>
     (\<forall>i<n. alive_unstopped (polls e i)) \<and> (\<exists>output. polls e n = Alive output True)"

definition completes :: "task_env \<Rightarrow> nat \<Rightarrow> bool" where
  "completes e n \<longleftrightarrow> \<not> stop_before e \<and> exits_after e n \<and> \<not> stop_after e"

definition line_of :: "poll_obs \<Rightarrow> string list" where
  "line_of p =
     (case p of
        Exited \<Rightarrow> []
      | Alive output set_meanwhile \<Rightarrow> if output \<noteq> [] then [strip_ws output] else [])"

definition forwarded :: "task_env \<Rightarrow> nat \<Rightarrow> nat \<Rightarrow> string list" where
  "forwarded e m n = concat (map (\<lambda>i. line_of (polls e i)) [m ..< n])"

text \<open>
  A platform, processes and a plan for the examples. \<open>posix_join\<close> is
  \<^verbatim>\<open>posixpath.join\<close>: a component that begins with \<open>/\<close> replaces what came before
  it, any other is appended after one \<open>/\<close>.
\<close>

fun posix_join :: "string \<Rightarrow> string list \<Rightarrow> string" where
  "posix_join a [] = a"
| "posix_join a (b # bs) =
     posix_join (if b \<noteq> [] \<and> hd b = CHR ''/'' then b
                 else if a = [] \<or> last a = CHR ''/'' then a @ b
                 else a @ ''/'' @ b) bs"

definition os_example :: os_env where
  "os_example =
     \<lparr>environ_APPDATA = None, home_dir = ''/home/u'', path_join = posix_join,
      path_exists = (\<lambda>p. p = ''/home/u/HFModelDownloader/aria2c.exe''),
      os_name = ''posix''\<rparr>"

text \<open>A process that prints one line and exits with code 0.\<close>

definition env_ok :: task_env where
  "env_ok =
     \<lparr>stop_before = False,
      polls = (\<lambda>i. if i = 0 then Alive (''[#1 50%]'' @ [LF]) False else Exited),
      wait_times_out = False, stop_after = False, returncode = 0, stderr_text = []\<rparr>"

text \<open>A process that prints nothing and exits with code 1, with a text on standard error.\<close>

definition env_fail :: task_env where
  "env_fail =
     \<lparr>stop_before = False, polls = (\<lambda>i. Exited),
      wait_times_out = False, stop_after = False, returncode = 1,
      stderr_text = ''errorCode=3'' @ [LF]\<rparr>"

text \<open>
  A process that never exits by itself; the event is set during its second poll, and
  the process is still alive five seconds after the request to terminate.
\<close>

definition env_stopped :: task_env where
  "env_stopped =
     \<lparr>stop_before = False,
      polls = (\<lambda>i. Alive (''[#1 10%]'' @ [LF]) (i = 1)),
      wait_times_out = True, stop_after = False, returncode = 0, stderr_text = []\<rparr>"

text \<open>An entry before whose first check the event is set.\<close>

definition env_stop_before :: task_env where
  "env_stop_before = env_ok\<lparr>stop_before := True\<rparr>"

text \<open>The plan of a file in three parts, and the state in which a run starts.\<close>

definition plan_example :: "model_info list" where
  "plan_example =
     map (part_info ''https://host/alice/modelX'' ''alice'' ''modelX'' ''file'' ''.bin'' 3)
       [1 ..< 4]"

definition app_started :: app where
  "app_started =
     \<lparr>downloading = True, aria2c_process = None, stop_event = False, log_queue = [],
      spawned = [], proc_calls = [], made_dirs = []\<rparr>"

section \<open>Lemmas on the string functions\<close>

declare str_nat.simps [simp del]

lemma rfind_split:
  assumes "c \<in> set s"
  shows "\<exists>r. s = take (nat (rfind s c)) s @ c # r \<and> c \<notin> set r \<and> 0 \<le> rfind s c
            \<and> nat (rfind s c) < length s"
proof -
  define t where "t = takeWhile (\<lambda>x. x \<noteq> c) (rev s)"
  define d where "d = dropWhile (\<lambda>x. x \<noteq> c) (rev s)"
  have c_rev: "c \<in> set (rev s)" using assms by simp
  have d_ne: "d \<noteq> []" unfolding d_def using c_rev by (simp add: dropWhile_eq_Nil_conv) 
  have hd_d: "hd d = c" unfolding d_def using c_rev hd_dropWhile[of "\<lambda>x. x \<noteq> c" "rev s"]
    by (auto simp: dropWhile_eq_Nil_conv)
  obtain rest where d_eq: "d = c # rest" using d_ne hd_d by (cases d) auto
  have rev_eq: "rev s = t @ c # rest" unfolding t_def using d_eq[unfolded d_def]
    by (metis takeWhile_dropWhile_id)
  have s_eq: "s = rev rest @ c # rev t" using rev_eq by (metis rev_rev_ident rev_append rev.simps(2) append.assoc append_Cons append_Nil)
  have len: "length s = length rest + 1 + length t" using s_eq by (metis length_append length_Cons length_rev add.commute add_Suc_right Suc_eq_plus1 add.assoc)
  have rf: "rfind s c = int (length rest)" unfolding rfind_def using assms len t_def by simp
  have ct: "c \<notin> set (rev t)" unfolding t_def by (auto dest: set_takeWhileD)
  have tk: "take (length rest) s = rev rest" by (subst s_eq) simp
  show ?thesis
    apply (rule exI[of _ "rev t"])
    using s_eq rf ct tk len by simp
qed

lemma rfind_append:
  assumes "c \<notin> set r"
  shows "rfind (d @ c # r) c = int (length d)"
proof -
  have "takeWhile (\<lambda>x. x \<noteq> c) (rev r @ c # rev d) = rev r"
    using assms by (auto simp: takeWhile_append2 takeWhile_tail) 
  then show ?thesis by (simp add: rfind_def)
qed

lemma rfind_absent: "c \<notin> set s \<Longrightarrow> rfind s c = - 1"
  by (simp add: rfind_def)

lemma base_url_of_append:
  "CHR ''/'' \<notin> set r \<Longrightarrow> base_url_of (d @ CHR ''/'' # r) = d"
  by (simp add: base_url_of_def rfind_append slice_to_def)

lemma base_url_of_split:
  assumes "CHR ''/'' \<in> set url"
  shows "\<exists>r. url = base_url_of url @ CHR ''/'' # r \<and> CHR ''/'' \<notin> set r"
  using rfind_split[OF assms] assms by (auto simp: base_url_of_def slice_to_def)

lemma basename_append:
  assumes "CHR ''/'' \<notin> set f"
  shows "basename (d @ CHR ''/'' # f) = f"
proof -
  have "nat (int (length d) + 1) = Suc (length d)" by simp
  then show ?thesis using assms by (simp add: basename_def rfind_append slice_from_def)
qed

lemma basename_no_slash: "CHR ''/'' \<notin> set p \<Longrightarrow> basename p = p"
  by (simp add: basename_def rfind_absent slice_from_def)

lemma basename_cases:
  "(CHR ''/'' \<notin> set p \<and> basename p = p)
   \<or> (\<exists>d. p = d @ CHR ''/'' # basename p \<and> CHR ''/'' \<notin> set (basename p))"
proof (cases "CHR ''/'' \<in> set p")
  case True
  from rfind_split[OF True] obtain r where
    r: "p = take (nat (rfind p (CHR ''/''))) p @ CHR ''/'' # r" "CHR ''/'' \<notin> set r" by blast
  have "basename p = r" using basename_append[OF r(2)] r(1) by metis
  then show ?thesis using r by metis
next
  case False
  then show ?thesis by (simp add: basename_no_slash)
qed

lemma slash_notin_basename: "CHR ''/'' \<notin> set (basename p)"
  using basename_cases[of p] by auto

lemma rfind_nonneg_iff: "0 \<le> rfind s c \<longleftrightarrow> c \<in> set s"
proof (cases "c \<in> set s")
  case True
  then show ?thesis using rfind_split[of c s] by blast
next
  case False
  then show ?thesis by (simp add: rfind_absent)
qed

lemma rfind_lower: "- 1 \<le> rfind s c"
proof (cases "c \<in> set s")
  case True
  then have "0 \<le> rfind s c" by (simp add: rfind_nonneg_iff)
  then show ?thesis by linarith
next
  case False
  then show ?thesis by (simp add: rfind_absent)
qed

lemma drop_rfind:
  assumes "c \<in> set s"
  shows "\<exists>r. drop (nat (rfind s c)) s = c # r \<and> c \<notin> set r"
proof -
  from rfind_split[OF assms] obtain r where
    r: "s = take (nat (rfind s c)) s @ c # r" "c \<notin> set r" "nat (rfind s c) < length s" by blast
  have "drop (nat (rfind s c)) s = drop (nat (rfind s c)) (take (nat (rfind s c)) s @ c # r)"
    using r(1) by simp
  also have "\<dots> = c # r" using r(3) by simp
  finally show ?thesis using r(2) by blast
qed

lemma splitext_props:
  assumes "splitext f = (stem, ext)"
  shows "stem @ ext = f"
    and "ext = [] \<or> (\<exists>r. ext = CHR ''.'' # r \<and> CHR ''.'' \<notin> set r)"
    and "CHR ''.'' \<notin> set f \<Longrightarrow> ext = []"
proof -
  let ?d = "rfind f (CHR ''.'')"
  let ?s = "rfind f (CHR ''/'')"
  let ?c = "?d > ?s \<and> \<not> all_dots (take (nat (?d - (?s + 1))) (drop (nat (?s + 1)) f))"
  have sep: "- 1 \<le> ?s" by (rule rfind_lower)
  show "stem @ ext = f"
    using assms sep by (auto simp: splitext_def Let_def slice_to_def slice_from_def split: if_splits)
  show "ext = [] \<or> (\<exists>r. ext = CHR ''.'' # r \<and> CHR ''.'' \<notin> set r)"
  proof (cases ?c)
    case True
    then have "0 \<le> ?d" using sep by linarith
    then have "CHR ''.'' \<in> set f" by (simp add: rfind_nonneg_iff)
    from drop_rfind[OF this] show ?thesis
      using assms True \<open>0 \<le> ?d\<close> by (auto simp: splitext_def Let_def slice_from_def)
  next
    case False
    then show ?thesis using assms by (auto simp: splitext_def Let_def)
  qed
  show "ext = []" if "CHR ''.'' \<notin> set f"
    using that assms sep by (auto simp: splitext_def Let_def rfind_absent split: if_splits)
qed

lemma re_match_SomeD:
  assumes "re_match s = Some (b, p, t)"
  shows "b \<noteq> [] \<and> LF \<notin> set b \<and> length p = 5 \<and> list_all is_digit p
         \<and> length t = 5 \<and> list_all is_digit t
         \<and> (s = b @ ''-'' @ p @ ''-of-'' @ t \<or> s = b @ ''-'' @ p @ ''-of-'' @ t @ [LF])"
proof -
  define u where "u = (if s \<noteq> [] \<and> last s = LF then butlast s else s)"
  define n where "n = length u"
  define tl where "tl = drop (n - 15) u"
  from assms have c: "16 \<le> n" "LF \<notin> set (take (n - 15) u)" "take 1 tl = ''-''"
     "list_all is_digit (take 5 (drop 1 tl))" "take 4 (drop 6 tl) = ''-of-''"
     "list_all is_digit (drop 10 tl)"
     and r: "b = take (n - 15) u" "p = take 5 (drop 1 tl)" "t = drop 10 tl"
    unfolding re_match_def Let_def u_def[symmetric] n_def[symmetric] tl_def[symmetric]
    by (auto split: if_splits)
  have ltl: "length tl = 15" using c(1) by (simp add: tl_def n_def)
  have tl_eq: "tl = take 1 tl @ take 5 (drop 1 tl) @ take 4 (drop 6 tl) @ drop 10 tl"
  proof -
    have a: "take 4 (drop 6 tl) @ drop 10 tl = drop 6 tl"
      using append_take_drop_id[of 4 "drop 6 tl"] by simp
    have b: "take 5 (drop 1 tl) @ drop 6 tl = drop 1 tl"
      using append_take_drop_id[of 5 "drop 1 tl"] by simp
    have c: "take 1 tl @ drop 1 tl = tl" by (rule append_take_drop_id)
    show ?thesis using a b c by metis
  qed
  have u_eq: "u = b @ tl" by (simp add: r(1) tl_def)
  have u_shape: "u = b @ ''-'' @ p @ ''-of-'' @ t"
    using tl_eq c(3,5) r u_eq by metis
  have "s = u \<or> s = u @ [LF]"
  proof (cases "s \<noteq> [] \<and> last s = LF")
    case True
    then have "butlast s @ [LF] = s" using append_butlast_last_id[of s] by simp
    then show ?thesis using True by (simp add: u_def)
  next
    case False
    then show ?thesis by (auto simp: u_def)
  qed
  then have shape: "s = b @ ''-'' @ p @ ''-of-'' @ t \<or> s = b @ ''-'' @ p @ ''-of-'' @ t @ [LF]"
    using u_shape by auto
  have b_ne: "b \<noteq> []" using c(1) by (auto simp: r(1) n_def)
  have lp: "length p = 5" using ltl by (simp add: r(2))
  have lt: "length t = 5" using ltl by (simp add: r(3))
  have lf: "LF \<notin> set b" using c(2) by (simp add: r(1))
  have dp: "list_all is_digit p" using c(4) by (simp add: r(2))
  have dt: "list_all is_digit t" using c(6) by (simp add: r(3))
  show ?thesis using b_ne lf lp dp lt dt shape by blast
qed

lemma is_digit_not_LF: "is_digit c \<Longrightarrow> c \<noteq> LF"
  by (auto simp: is_digit_def LF_def)

lemma re_match_SomeI:
  assumes "b \<noteq> []" "LF \<notin> set b" "length p = 5" "list_all is_digit p"
    "length t = 5" "list_all is_digit t"
    "s = b @ ''-'' @ p @ ''-of-'' @ t \<or> s = b @ ''-'' @ p @ ''-of-'' @ t @ [LF]"
  shows "re_match s = Some (b, p, t)"
proof -
  define w where "w = b @ ''-'' @ p @ ''-of-'' @ t"
  have t_ne: "t \<noteq> []" using assms(5) by auto
  have "is_digit (last t)" using assms(6) t_ne by (simp add: list_all_iff)
  then have last_t: "last t \<noteq> LF" by (rule is_digit_not_LF)
  have last_w: "last w = last t" using t_ne by (simp add: w_def)
  have w_ne: "w \<noteq> []" using assms(1) by (simp add: w_def)
  have u: "(if s \<noteq> [] \<and> last s = LF then butlast s else s) = w"
  proof -
    from assms(7) have "s = w \<or> s = w @ [LF]" by (simp add: w_def)
    then show ?thesis
    proof
      assume "s = w" then show ?thesis using last_w last_t by simp
    next
      assume "s = w @ [LF]" then show ?thesis by simp
    qed
  qed
  have lw: "length w = length b + 15" using assms(3,5) by (simp add: w_def)
  have tk: "take (length w - 15) w = b" by (simp add: lw) (simp add: w_def)
  have dr: "drop (length w - 15) w = ''-'' @ p @ ''-of-'' @ t" by (simp add: lw) (simp add: w_def)
  have g1: "take 1 (''-'' @ p @ ''-of-'' @ t) = ''-''" by simp
  have g2: "take 5 (drop 1 (''-'' @ p @ ''-of-'' @ t)) = p" using assms(3) by simp
  have g3: "take 4 (drop 6 (''-'' @ p @ ''-of-'' @ t)) = ''-of-''" using assms(3) by simp
  have g4: "drop 10 (''-'' @ p @ ''-of-'' @ t) = t" using assms(3) by simp
  have n16: "16 \<le> length w" using lw assms(1) by (cases b) auto
  show ?thesis
    unfolding re_match_def u Let_def tk dr g1 g2 g3 g4
    using n16 assms(2,4,6) by simp
qed

lemma re_match_iff:
  "re_match s = Some (b, p, t) \<longleftrightarrow>
     b \<noteq> [] \<and> LF \<notin> set b \<and> length p = 5 \<and> list_all is_digit p
     \<and> length t = 5 \<and> list_all is_digit t
     \<and> (s = b @ ''-'' @ p @ ''-of-'' @ t \<or> s = b @ ''-'' @ p @ ''-of-'' @ t @ [LF])"
  using re_match_SomeD[of s b p t] re_match_SomeI[of b p t s] by blast

lemma digit_val_digit_char: "d < 10 \<Longrightarrow> digit_val (digit_char d) = d"
proof -
  assume "d < 10"
  then have "d \<in> {0,1,2,3,4,5,6,7,8,9}" by auto
  then show ?thesis by (auto simp: digit_val_def digit_char_def)
qed

lemma int_digits_snoc: "int_digits (xs @ [c]) = 10 * int_digits xs + digit_val c"
  by (simp add: int_digits_def)

lemma int_digits_str_nat: "int_digits (str_nat n) = n"
proof (induction n rule: str_nat.induct)
  case (1 n)
  show ?case
  proof (cases "n < 10")
    case True
    then show ?thesis
      by (subst str_nat.simps) (simp add: int_digits_def digit_val_digit_char)
  next
    case False
    then have "int_digits (str_nat (n div 10)) = n div 10" using 1 by simp
    then show ?thesis using False
      by (subst str_nat.simps) (simp add: int_digits_snoc digit_val_digit_char)
  qed
qed

lemma int_digits_zeros: "int_digits (replicate k (CHR ''0'') @ s) = int_digits s"
proof -
  have z: "digit_val (CHR ''0'') = 0" by (simp add: digit_val_def)
  have "foldl (\<lambda>a c. 10 * a + digit_val c) 0 (replicate k (CHR ''0'')) = 0"
    by (induction k) (simp_all add: z)
  then show ?thesis by (simp add: int_digits_def)
qed

lemma is_digit_digit_char: "d < 10 \<Longrightarrow> is_digit (digit_char d)"
proof -
  assume "d < 10"
  then have "d \<in> {0,1,2,3,4,5,6,7,8,9}" by auto
  then show ?thesis by (auto simp: is_digit_def digit_char_def)
qed

lemma str_nat_digits: "list_all is_digit (str_nat n)"
proof (induction n rule: str_nat.induct)
  case (1 n)
  show ?case
  proof (cases "n < 10")
    case True
    then show ?thesis by (subst str_nat.simps) (simp add: is_digit_digit_char)
  next
    case False
    then show ?thesis using 1 by (subst str_nat.simps) (simp add: is_digit_digit_char)
  qed
qed

lemma str_nat_nonempty: "str_nat n \<noteq> []"
  by (subst str_nat.simps) simp

lemma zfill_str_nat:
  "zfill w (str_nat n) = replicate (w - length (str_nat n)) (CHR ''0'') @ str_nat n"
proof (cases "str_nat n")
  case Nil
  then show ?thesis using str_nat_nonempty by simp
next
  case (Cons c r)
  have "is_digit c" using str_nat_digits[of n] Cons by simp
  then have "c \<noteq> CHR ''+''" "c \<noteq> CHR ''-''" by (auto simp: is_digit_def)
  then show ?thesis using Cons by (simp add: zfill_def)
qed

lemma int_digits_zfill: "int_digits (zfill w (str_nat n)) = n"
  by (simp add: zfill_str_nat int_digits_zeros int_digits_str_nat)

lemma zfill_str_nat_inj: "zfill w (str_nat i) = zfill w (str_nat j) \<Longrightarrow> i = j"
  by (metis int_digits_zfill)

lemma re_match_multipart: "re_match s = Some (b, p, t) \<longleftrightarrow> multipart_stem s b p t"
  unfolding multipart_stem_def by (rule re_match_iff)

lemma re_match_None_iff: "re_match s = None \<longleftrightarrow> (\<forall>b p t. \<not> multipart_stem s b p t)"
proof
  assume "re_match s = None"
  then show "\<forall>b p t. \<not> multipart_stem s b p t"
    by (simp add: re_match_multipart[symmetric])
next
  assume a: "\<forall>b p t. \<not> multipart_stem s b p t"
  show "re_match s = None"
  proof (cases "re_match s")
    case None
    then show ?thesis .
  next
    case (Some g)
    obtain b p t where "g = (b, p, t)" by (cases g) auto
    then show ?thesis using Some a by (simp add: re_match_multipart)
  qed
qed

lemma parse_valid_unfold:
  assumes "urlparse url = Some parsed" "scheme parsed \<noteq> []" "netloc parsed \<noteq> []"
    and "2 \<le> length (split (CHR ''/'') (strip_char (CHR ''/'') (path parsed)))"
    and "splitext (basename (path parsed)) = (stem, ext)"
  shows "parse_huggingface_model_url urlparse url =
     (let segments = split (CHR ''/'') (strip_char (CHR ''/'') (path parsed)) in
      case re_match stem of
        Some (base_name, g_part, g_total) \<Rightarrow>
          ([], Some (map (part_info (base_url_of url) (segments ! 0) (segments ! 1) base_name
                            ext (int_digits g_total))
                       [1 ..< int_digits g_total + 1]))
      | None \<Rightarrow>
          ([], Some [\<lparr>DownloadUrl = url, Author = segments ! 0, ModelRepo = segments ! 1,
                      ModelName = stem, Extension = ext\<rparr>]))"
  using assms by (simp add: parse_huggingface_model_url_def Let_def split: option.split)

lemma part_info_names_inj:
  "ModelName (part_info bu a r b e T i) = ModelName (part_info bu a r b e T j) \<Longrightarrow> i = j"
  by (simp add: part_info_def Let_def) (rule zfill_str_nat_inj)

lemma split_nonempty: "split c s \<noteq> []"
  by (induction s) (auto simp: Let_def)

lemma split_one: "split c s = [b] \<Longrightarrow> s = b \<and> c \<notin> set b"
proof (induction s arbitrary: b)
  case Nil
  then show ?case by simp
next
  case (Cons x xs)
  show ?case
  proof (cases "x = c")
    case True
    then show ?thesis using Cons.prems split_nonempty[of c xs] by simp
  next
    case False
    obtain h t where r: "split c xs = h # t" using split_nonempty[of c xs] by (cases "split c xs") auto
    from Cons.prems False r have "b = x # h" "t = []" by (auto simp: Let_def)
    then show ?thesis using Cons.IH[of h] r False by simp
  qed
qed

lemma split_two: "split c s = [a, b] \<Longrightarrow> s = a @ c # b \<and> c \<notin> set a \<and> c \<notin> set b"
proof (induction s arbitrary: a)
  case Nil
  then show ?case by simp
next
  case (Cons x xs)
  show ?case
  proof (cases "x = c")
    case True
    then have "a = []" "split c xs = [b]" using Cons.prems by auto
    then show ?thesis using split_one[of c xs b] True by simp
  next
    case False
    obtain h t where r: "split c xs = h # t" using split_nonempty[of c xs] by (cases "split c xs") auto
    from Cons.prems False r have "a = x # h" "t = [b]" by (auto simp: Let_def)
    then show ?thesis using Cons.IH[of h] r False by simp
  qed
qed

lemma strip_char_last:
  assumes "p \<noteq> []" "last p \<noteq> c"
  shows "strip_char c p = dropWhile (\<lambda>x. x = c) p"
proof -
  let ?q = "dropWhile (\<lambda>x. x = c) p"
  have "last p \<in> set p" using assms(1) by simp
  then have ex: "\<exists>x\<in>set p. \<not> x = c" using assms(2) by blast
  then have q_ne: "?q \<noteq> []" by (simp add: dropWhile_eq_Nil_conv)
  have "last ?q = last p" using q_ne by (metis last_appendR takeWhile_dropWhile_id)
  then have "hd (rev ?q) \<noteq> c" using q_ne assms(2) by (simp add: hd_rev)
  then have "dropWhile (\<lambda>x. x = c) (rev ?q) = rev ?q"
    using q_ne by (cases "rev ?q") auto
  then show ?thesis by (simp add: strip_char_def)
qed

lemma basename_two_segments:
  assumes "split (CHR ''/'') (strip_char (CHR ''/'') p) = [a, b]" "last p \<noteq> CHR ''/''"
  shows "basename p = b"
proof -
  have p_ne: "p \<noteq> []" using assms(1) by (auto simp: strip_char_def)
  let ?q = "dropWhile (\<lambda>x. x = CHR ''/'') p"
  have "strip_char (CHR ''/'') p = ?q" using p_ne assms(2) by (rule strip_char_last)
  then have "?q = a @ CHR ''/'' # b" "CHR ''/'' \<notin> set b"
    using split_two[of "CHR ''/''" ?q a b] assms(1) by auto
  moreover have "p = takeWhile (\<lambda>x. x = CHR ''/'') p @ ?q" by simp
  ultimately have "p = (takeWhile (\<lambda>x. x = CHR ''/'') p @ a) @ CHR ''/'' # b" by simp
  then show ?thesis using basename_append[OF \<open>CHR ''/'' \<notin> set b\<close>] by metis
qed

text \<open>
  The plan in terms of the last component of the path, \<^verbatim>\<open>os.path.basename\<close> of
  the path as it is, which is where the function takes the file name from.
\<close>

lemma multipart_plan_of_basename:
  assumes "urlparse url = Some parsed"
    and "scheme parsed \<noteq> []" and "netloc parsed \<noteq> []"
    and "segments = split (CHR ''/'') (strip_char (CHR ''/'') (path parsed))"
    and "2 \<le> length segments"
    and "splitext (basename (path parsed)) = (stem, ext)"
    and "multipart_stem stem base part tot"
    and "T = int_digits tot" and "1 \<le> T"
  shows "\<exists>tasks.
      parse_huggingface_model_url urlparse url = ([], Some tasks)
      \<and> length tasks = T
      \<and> (\<forall>i<T. tasks ! i =
            \<lparr>DownloadUrl = base_url_of url @ ''/'' @ base @ ''-'' @ zfill 5 (str_nat (Suc i))
                             @ ''-of-'' @ zfill 5 (str_nat T) @ ext,
             Author = segments ! 0, ModelRepo = segments ! 1,
             ModelName = base @ ''-'' @ zfill 5 (str_nat (Suc i)) @ ''-of-''
                           @ zfill 5 (str_nat T),
             Extension = ext\<rparr>)
      \<and> distinct (map ModelName tasks)
      \<and> (CHR ''/'' \<in> set url \<longrightarrow>
           (\<exists>r. url = base_url_of url @ ''/'' @ r \<and> CHR ''/'' \<notin> set r))"
proof -
  define f where "f = part_info (base_url_of url) (segments ! 0) (segments ! 1) base ext T"
  define r where "r = [1 ..< T + 1]"
  define tasks where "tasks = map f r"
  have m: "re_match stem = Some (base, part, tot)"
    using assms(7) by (simp add: re_match_multipart)
  have res: "parse_huggingface_model_url urlparse url = ([], Some tasks)"
    using parse_valid_unfold[of urlparse url parsed stem ext] assms(1,2,3,5,6) m assms(4,8)
    by (simp add: Let_def tasks_def f_def r_def)
  have lr: "length r = T" by (simp add: r_def)
  have len: "length tasks = T" by (simp add: tasks_def lr)
  have nth_r: "r ! i = Suc i" if "i < T" for i
    using that unfolding r_def by (simp add: nth_upt del: upt_Suc)
  have nth: "\<forall>i<T. tasks ! i =
            \<lparr>DownloadUrl = base_url_of url @ ''/'' @ base @ ''-'' @ zfill 5 (str_nat (Suc i))
                             @ ''-of-'' @ zfill 5 (str_nat T) @ ext,
             Author = segments ! 0, ModelRepo = segments ! 1,
             ModelName = base @ ''-'' @ zfill 5 (str_nat (Suc i)) @ ''-of-''
                           @ zfill 5 (str_nat T),
             Extension = ext\<rparr>"
  proof (intro allI impI)
    fix i assume i: "i < T"
    then have "tasks ! i = f (r ! i)" by (simp add: tasks_def lr)
    then have "tasks ! i = f (Suc i)" using nth_r[OF i] by simp
    then show "tasks ! i =
            \<lparr>DownloadUrl = base_url_of url @ ''/'' @ base @ ''-'' @ zfill 5 (str_nat (Suc i))
                             @ ''-of-'' @ zfill 5 (str_nat T) @ ext,
             Author = segments ! 0, ModelRepo = segments ! 1,
             ModelName = base @ ''-'' @ zfill 5 (str_nat (Suc i)) @ ''-of-''
                           @ zfill 5 (str_nat T),
             Extension = ext\<rparr>"
      by (simp add: f_def part_info_def format_05d_def Let_def)
  qed
  have "inj_on (\<lambda>i. ModelName (f i)) (set r)"
    unfolding f_def by (rule inj_onI) (rule part_info_names_inj)
  moreover have "distinct r" by (simp add: r_def del: upt_Suc)
  ultimately have dist: "distinct (map ModelName tasks)"
    by (simp add: tasks_def distinct_map comp_def)
  have slash: "CHR ''/'' \<in> set url \<longrightarrow>
           (\<exists>r. url = base_url_of url @ ''/'' @ r \<and> CHR ''/'' \<notin> set r)"
    using base_url_of_split[of url] by simp
  show ?thesis using res len nth dist slash by blast
qed

lemma single_file_plan_of_basename:
  assumes "urlparse url = Some parsed"
    and "scheme parsed \<noteq> []" and "netloc parsed \<noteq> []"
    and "segments = split (CHR ''/'') (strip_char (CHR ''/'') (path parsed))"
    and "2 \<le> length segments"
    and "splitext (basename (path parsed)) = (stem, ext)"
    and "\<forall>base part tot. \<not> multipart_stem stem base part tot"
  shows "parse_huggingface_model_url urlparse url =
           ([], Some [\<lparr>DownloadUrl = url, Author = segments ! 0, ModelRepo = segments ! 1,
                        ModelName = stem, Extension = ext\<rparr>])
         \<and> stem @ ext = basename (path parsed)
         \<and> (ext = [] \<or> (\<exists>r. ext = CHR ''.'' # r \<and> CHR ''.'' \<notin> set r))
         \<and> (CHR ''.'' \<notin> set (basename (path parsed)) \<longrightarrow> ext = [])
         \<and> CHR ''/'' \<notin> set (basename (path parsed))
         \<and> (\<exists>d. path parsed = d @ basename (path parsed) \<and> (d = [] \<or> last d = CHR ''/''))"
proof -
  have m: "re_match stem = None" using assms(7) by (simp add: re_match_None_iff)
  have res: "parse_huggingface_model_url urlparse url =
           ([], Some [\<lparr>DownloadUrl = url, Author = segments ! 0, ModelRepo = segments ! 1,
                        ModelName = stem, Extension = ext\<rparr>])"
    using parse_valid_unfold[of urlparse url parsed stem ext] assms(1,2,3,5,6) m assms(4)
    by (simp add: Let_def)
  have d: "\<exists>d. path parsed = d @ basename (path parsed) \<and> (d = [] \<or> last d = CHR ''/'')"
  proof -
    from basename_cases[of "path parsed"] show ?thesis
    proof
      assume "CHR ''/'' \<notin> set (path parsed) \<and> basename (path parsed) = path parsed"
      then have "path parsed = [] @ basename (path parsed)" by simp
      then show ?thesis by blast
    next
      assume "\<exists>d. path parsed = d @ CHR ''/'' # basename (path parsed)
                \<and> CHR ''/'' \<notin> set (basename (path parsed))"
      then obtain d where "path parsed = (d @ [CHR ''/'']) @ basename (path parsed)" by auto
      moreover have "last (d @ [CHR ''/'']) = CHR ''/''" by simp
      ultimately show ?thesis by blast
    qed
  qed
  show ?thesis
    using res splitext_props[OF assms(6)] slash_notin_basename[of "path parsed"] d by blast
qed

lemma zero_total_plan_of_basename:
  assumes "urlparse url = Some parsed"
    and "scheme parsed \<noteq> []" and "netloc parsed \<noteq> []"
    and "2 \<le> length (split (CHR ''/'') (strip_char (CHR ''/'') (path parsed)))"
    and "splitext (basename (path parsed)) = (stem, ext)"
    and "multipart_stem stem base part ''00000''"
  shows "parse_huggingface_model_url urlparse url = ([], Some [])"
proof -
  have m: "re_match stem = Some (base, part, ''00000'')"
    using assms(6) by (simp add: re_match_multipart)
  have z: "int_digits ''00000'' = 0" by (simp add: int_digits_def digit_val_def)
  show ?thesis
    using parse_valid_unfold[of urlparse url parsed stem ext] assms(1-5) m z
    by (simp add: Let_def)
qed

text \<open>
  The segments are taken from the path stripped of its slashes, the file name from the
  path as it is. For a path that does not end with \<open>/\<close> the file name is the last
  segment.
\<close>

lemma split_no_sep: "c \<notin> set s \<Longrightarrow> split c s = [s]"
  by (induction s) (auto simp: Let_def)

lemma last_split_seps:
  "\<forall>x\<in>set d. x = c \<Longrightarrow> last (split c (d @ s)) = last (split c s)"
  by (induction d) (auto simp: split_nonempty)

lemma tl_split_nonempty: "c \<in> set s \<Longrightarrow> tl (split c s) \<noteq> []"
proof (induction s)
  case Nil
  then show ?case by simp
next
  case (Cons x xs)
  show ?case
  proof (cases "x = c")
    case True
    then show ?thesis by (simp add: split_nonempty)
  next
    case False
    then have "c \<in> set xs" using Cons.prems by simp
    then show ?thesis using Cons.IH False by (simp add: Let_def)
  qed
qed

lemma last_split_Cons:
  "last (split c (x # xs)) = (if c \<in> set xs then last (split c xs)
                              else if x = c then xs else x # xs)"
proof (cases "c \<in> set xs")
  case True
  have ne: "split c xs \<noteq> []" by (rule split_nonempty)
  have tn: "tl (split c xs) \<noteq> []" by (rule tl_split_nonempty[OF True])
  have "last (tl (split c xs)) = last (split c xs)" using tn by (simp add: last_tl)
  then show ?thesis using True ne tn by (simp add: Let_def)
next
  case False
  then show ?thesis by (simp add: split_no_sep Let_def)
qed

lemma last_split_append: "c \<notin> set r \<Longrightarrow> last (split c (d @ c # r)) = r"
proof (induction d)
  case Nil
  then show ?case by (simp add: split_no_sep)
next
  case (Cons x d)
  have m: "c \<in> set (d @ c # r)" by simp
  have ih: "last (split c (d @ c # r)) = r" by (rule Cons.IH[OF Cons.prems])
  have "last (split c (x # (d @ c # r))) = last (split c (d @ c # r))"
    using m by (simp only: last_split_Cons if_True)
  then show ?case using ih by simp
qed

lemma last_split_basename: "last (split (CHR ''/'') p) = basename p"
proof -
  from basename_cases[of p] show ?thesis
  proof
    assume "CHR ''/'' \<notin> set p \<and> basename p = p"
    then show ?thesis by (simp add: split_no_sep)
  next
    assume "\<exists>d. p = d @ CHR ''/'' # basename p \<and> CHR ''/'' \<notin> set (basename p)"
    then obtain d where d: "p = d @ CHR ''/'' # basename p" "CHR ''/'' \<notin> set (basename p)"
      by blast
    have "last (split (CHR ''/'') (d @ CHR ''/'' # basename p)) = basename p"
      by (rule last_split_append[OF d(2)])
    then show ?thesis using d(1) by simp
  qed
qed

lemma basename_last_segment:
  assumes "p \<noteq> []" "last p \<noteq> CHR ''/''"
  shows "basename p = last (split (CHR ''/'') (strip_char (CHR ''/'') p))"
proof -
  let ?d = "takeWhile (\<lambda>x. x = CHR ''/'') p"
  let ?q = "dropWhile (\<lambda>x. x = CHR ''/'') p"
  have st: "strip_char (CHR ''/'') p = ?q" using assms by (rule strip_char_last)
  have "\<forall>x\<in>set ?d. x = CHR ''/''" by (auto dest: set_takeWhileD)
  then have "last (split (CHR ''/'') (?d @ ?q)) = last (split (CHR ''/'') ?q)"
    by (rule last_split_seps)
  then have "last (split (CHR ''/'') p) = last (split (CHR ''/'') ?q)" by simp
  then show ?thesis by (simp add: st last_split_basename)
qed

lemma segments_path_nonempty:
  "2 \<le> length (split (CHR ''/'') (strip_char (CHR ''/'') p)) \<Longrightarrow> p \<noteq> []"
  by (auto simp: strip_char_def)

section \<open>The planner: theorems\<close>

text \<open>
  Claim C1, as amended. Let the URL parse with a scheme, a network location and at
  least two path segments, let its path not end with \<open>/\<close>, and let the stem of
  its last path segment be \<open>base\<close>, a hyphen, five digits, \<open>-of-\<close> and five
  digits of value \<open>T \<ge> 1\<close>. Then the planner prints nothing and returns exactly
  \<open>T\<close> entries; the entry at position \<open>i\<close> (counted from 0) is part
  \<open>i + 1\<close>: its name is \<open>base\<close>, a hyphen, \<open>i + 1\<close> padded with zeros to five
  digits, \<open>-of-\<close> and \<open>T\<close> padded to five digits; its download URL is the input
  URL cut at its last \<open>/\<close>, then \<open>/\<close>, the name and the extension; author and
  repository are the first and second path segment and the extension is that of the
  last segment, for every entry. The names are pairwise distinct.
\<close>

theorem C1_multipart_plan:
  assumes "urlparse url = Some parsed"
    and "scheme parsed \<noteq> []" and "netloc parsed \<noteq> []"
    and "segments = split (CHR ''/'') (strip_char (CHR ''/'') (path parsed))"
    and "2 \<le> length segments"
    and "last (path parsed) \<noteq> CHR ''/''"
    and "splitext (last segments) = (stem, ext)"
    and "multipart_stem stem base part tot"
    and "T = int_digits tot" and "1 \<le> T"
  shows "\<exists>tasks.
      parse_huggingface_model_url urlparse url = ([], Some tasks)
      \<and> length tasks = T
      \<and> (\<forall>i<T. tasks ! i =
            \<lparr>DownloadUrl = base_url_of url @ ''/'' @ base @ ''-'' @ zfill 5 (str_nat (Suc i))
                             @ ''-of-'' @ zfill 5 (str_nat T) @ ext,
             Author = segments ! 0, ModelRepo = segments ! 1,
             ModelName = base @ ''-'' @ zfill 5 (str_nat (Suc i)) @ ''-of-''
                           @ zfill 5 (str_nat T),
             Extension = ext\<rparr>)
      \<and> distinct (map ModelName tasks)
      \<and> (CHR ''/'' \<in> set url \<longrightarrow>
           (\<exists>r. url = base_url_of url @ ''/'' @ r \<and> CHR ''/'' \<notin> set r))"
proof -
  have ne: "path parsed \<noteq> []"
    using assms(4,5) segments_path_nonempty[of "path parsed"] by simp
  have bn: "basename (path parsed) = last segments"
    using basename_last_segment[OF ne assms(6)] assms(4) by simp
  have se: "splitext (basename (path parsed)) = (stem, ext)"
    using assms(7) bn by simp
  show ?thesis
    by (rule multipart_plan_of_basename[where urlparse = urlparse and url = url,
          OF assms(1,2,3,4,5) se assms(8,9,10)])
qed

text \<open>The example of the specification: part 2 of a file in four parts.\<close>

theorem C1_multipart_plan_witness:
  "urlparse_examples ''https://host/alice/modelX/file-00002-of-00004.bin''
     = Some \<lparr>scheme = ''https'', netloc = ''host'',
              path = ''/alice/modelX/file-00002-of-00004.bin''\<rparr>
   \<and> split (CHR ''/'') (strip_char (CHR ''/'') ''/alice/modelX/file-00002-of-00004.bin'')
       = [''alice'', ''modelX'', ''file-00002-of-00004.bin'']
   \<and> splitext ''file-00002-of-00004.bin'' = (''file-00002-of-00004'', ''.bin'')
   \<and> multipart_stem ''file-00002-of-00004'' ''file'' ''00002'' ''00004''
   \<and> int_digits ''00004'' = 4
   \<and> (\<exists>tasks.
        parse_huggingface_model_url urlparse_examples
          ''https://host/alice/modelX/file-00002-of-00004.bin'' = ([], Some tasks)
        \<and> length tasks = 4
        \<and> tasks ! 0 = \<lparr>DownloadUrl = ''https://host/alice/modelX/file-00001-of-00004.bin'',
                        Author = ''alice'', ModelRepo = ''modelX'',
                        ModelName = ''file-00001-of-00004'', Extension = ''.bin''\<rparr>
        \<and> tasks ! 3 = \<lparr>DownloadUrl = ''https://host/alice/modelX/file-00004-of-00004.bin'',
                        Author = ''alice'', ModelRepo = ''modelX'',
                        ModelName = ''file-00004-of-00004'', Extension = ''.bin''\<rparr>
        \<and> distinct (map ModelName tasks))"
proof -
  let ?url = "''https://host/alice/modelX/file-00002-of-00004.bin''"
  let ?parsed = "\<lparr>scheme = ''https'', netloc = ''host'',
                   path = ''/alice/modelX/file-00002-of-00004.bin''\<rparr>"
  let ?segs = "[''alice'', ''modelX'', ''file-00002-of-00004.bin'']"
  have h1: "urlparse_examples ?url = Some ?parsed" by code_simp
  have h2: "scheme ?parsed \<noteq> []" by simp
  have h3: "netloc ?parsed \<noteq> []" by simp
  have h4: "?segs = split (CHR ''/'') (strip_char (CHR ''/'') (path ?parsed))" by code_simp
  have h5: "2 \<le> length ?segs" by simp
  have h6: "last (path ?parsed) \<noteq> CHR ''/''" by simp
  have s7: "splitext ''file-00002-of-00004.bin'' = (''file-00002-of-00004'', ''.bin'')"
    by code_simp
  have h7: "splitext (last ?segs) = (''file-00002-of-00004'', ''.bin'')" using s7 by simp
  have h8: "multipart_stem ''file-00002-of-00004'' ''file'' ''00002'' ''00004''" by code_simp
  have h9: "(4::nat) = int_digits ''00004''" by code_simp
  have h10: "1 \<le> (4::nat)" by simp
  have b: "base_url_of ?url = ''https://host/alice/modelX''" by code_simp
  have z1: "zfill 5 (str_nat (Suc 0)) = ''00001''" by code_simp
  have z4: "zfill 5 (str_nat 4) = ''00004''" by code_simp
  have z4': "zfill 5 (str_nat (Suc 3)) = ''00004''" by code_simp
  from C1_multipart_plan[where urlparse = urlparse_examples and url = ?url,
      OF h1 h2 h3 h4 h5 h6 h7 h8 h9 h10]
  obtain tasks where t:
    "parse_huggingface_model_url urlparse_examples ?url = ([], Some tasks)"
    "length tasks = 4"
    "\<forall>i<4. tasks ! i =
            \<lparr>DownloadUrl = base_url_of ?url @ ''/'' @ ''file'' @ ''-'' @ zfill 5 (str_nat (Suc i))
                             @ ''-of-'' @ zfill 5 (str_nat 4) @ ''.bin'',
             Author = ?segs ! 0, ModelRepo = ?segs ! 1,
             ModelName = ''file'' @ ''-'' @ zfill 5 (str_nat (Suc i)) @ ''-of-''
                           @ zfill 5 (str_nat 4),
             Extension = ''.bin''\<rparr>"
    "distinct (map ModelName tasks)"
    by blast
  have t0: "tasks ! 0 = \<lparr>DownloadUrl = ''https://host/alice/modelX/file-00001-of-00004.bin'',
                        Author = ''alice'', ModelRepo = ''modelX'',
                        ModelName = ''file-00001-of-00004'', Extension = ''.bin''\<rparr>"
    using t(3)[rule_format, of 0] by (simp add: b z1 z4)
  have t3: "tasks ! 3 = \<lparr>DownloadUrl = ''https://host/alice/modelX/file-00004-of-00004.bin'',
                        Author = ''alice'', ModelRepo = ''modelX'',
                        ModelName = ''file-00004-of-00004'', Extension = ''.bin''\<rparr>"
    using t(3)[rule_format, of 3] by (simp add: b z4 z4')
  have sg: "split (CHR ''/'') (strip_char (CHR ''/'') ''/alice/modelX/file-00002-of-00004.bin'')
       = ?segs" using h4 by simp
  show ?thesis using h1 sg s7 h8 h9 t(1,2,4) t0 t3 by auto
qed

text \<open>
  The claim as it was stated covers a URL whose path ends with \<open>/\<close>. The last of
  its three segments has the multi-part form with total 4, and the plan is one entry
  with an empty name and the input URL, not four entries.
\<close>

theorem C1_trailing_slash_counterexample:
  "urlparse_examples ''https://host/alice/modelX/file-00002-of-00004.bin/''
     = Some \<lparr>scheme = ''https'', netloc = ''host'',
              path = ''/alice/modelX/file-00002-of-00004.bin/''\<rparr>
   \<and> split (CHR ''/'') (strip_char (CHR ''/'') ''/alice/modelX/file-00002-of-00004.bin/'')
       = [''alice'', ''modelX'', ''file-00002-of-00004.bin'']
   \<and> splitext ''file-00002-of-00004.bin'' = (''file-00002-of-00004'', ''.bin'')
   \<and> multipart_stem ''file-00002-of-00004'' ''file'' ''00002'' ''00004''
   \<and> int_digits ''00004'' = 4
   \<and> parse_huggingface_model_url urlparse_examples
         ''https://host/alice/modelX/file-00002-of-00004.bin/''
       = ([], Some [\<lparr>DownloadUrl = ''https://host/alice/modelX/file-00002-of-00004.bin/'',
                      Author = ''alice'', ModelRepo = ''modelX'',
                      ModelName = [], Extension = []\<rparr>])"
  by code_simp

text \<open>
  Claim C2, as amended. Let the URL parse with a scheme, a network location and at
  least two path segments, let its path not end with \<open>/\<close>, and let the stem of
  its last path segment not have the multi-part form. Then the planner prints nothing
  and returns exactly one entry: its download URL is the input URL unchanged, its name
  is that stem, and its extension is the rest of the segment, so that name and
  extension together are the segment. The extension is empty or begins with its only
  dot, and it is empty when the segment has no dot.
\<close>

theorem C2_single_file_plan:
  assumes "urlparse url = Some parsed"
    and "scheme parsed \<noteq> []" and "netloc parsed \<noteq> []"
    and "segments = split (CHR ''/'') (strip_char (CHR ''/'') (path parsed))"
    and "2 \<le> length segments"
    and "last (path parsed) \<noteq> CHR ''/''"
    and "splitext (last segments) = (stem, ext)"
    and "\<forall>base part tot. \<not> multipart_stem stem base part tot"
  shows "parse_huggingface_model_url urlparse url =
           ([], Some [\<lparr>DownloadUrl = url, Author = segments ! 0, ModelRepo = segments ! 1,
                        ModelName = stem, Extension = ext\<rparr>])
         \<and> stem @ ext = last segments
         \<and> (ext = [] \<or> (\<exists>r. ext = CHR ''.'' # r \<and> CHR ''.'' \<notin> set r))
         \<and> (CHR ''.'' \<notin> set (last segments) \<longrightarrow> ext = [])
         \<and> CHR ''/'' \<notin> set (last segments)"
proof -
  have ne: "path parsed \<noteq> []"
    using assms(4,5) segments_path_nonempty[of "path parsed"] by simp
  have bn: "basename (path parsed) = last segments"
    using basename_last_segment[OF ne assms(6)] assms(4) by simp
  have se: "splitext (basename (path parsed)) = (stem, ext)"
    using assms(7) bn by simp
  from single_file_plan_of_basename[where urlparse = urlparse and url = url,
      OF assms(1,2,3,4,5) se assms(8)]
  show ?thesis unfolding bn by blast
qed

text \<open>The example of the specification: one file \<open>weights.bin\<close>.\<close>

theorem C2_single_file_plan_witness:
  "urlparse_examples ''https://host/alice/modelX/weights.bin''
     = Some \<lparr>scheme = ''https'', netloc = ''host'', path = ''/alice/modelX/weights.bin''\<rparr>
   \<and> split (CHR ''/'') (strip_char (CHR ''/'') ''/alice/modelX/weights.bin'')
       = [''alice'', ''modelX'', ''weights.bin'']
   \<and> splitext ''weights.bin'' = (''weights'', ''.bin'')
   \<and> re_match ''weights'' = None
   \<and> parse_huggingface_model_url urlparse_examples ''https://host/alice/modelX/weights.bin''
       = ([], Some [\<lparr>DownloadUrl = ''https://host/alice/modelX/weights.bin'',
                      Author = ''alice'', ModelRepo = ''modelX'',
                      ModelName = ''weights'', Extension = ''.bin''\<rparr>])"
proof -
  let ?url = "''https://host/alice/modelX/weights.bin''"
  let ?parsed = "\<lparr>scheme = ''https'', netloc = ''host'', path = ''/alice/modelX/weights.bin''\<rparr>"
  let ?segs = "[''alice'', ''modelX'', ''weights.bin'']"
  have h1: "urlparse_examples ?url = Some ?parsed" by code_simp
  have h2: "scheme ?parsed \<noteq> []" by simp
  have h3: "netloc ?parsed \<noteq> []" by simp
  have h4: "?segs = split (CHR ''/'') (strip_char (CHR ''/'') (path ?parsed))" by code_simp
  have h5: "2 \<le> length ?segs" by simp
  have h6: "last (path ?parsed) \<noteq> CHR ''/''" by simp
  have s7: "splitext ''weights.bin'' = (''weights'', ''.bin'')" by code_simp
  have h7: "splitext (last ?segs) = (''weights'', ''.bin'')" using s7 by simp
  have n: "re_match ''weights'' = None" by code_simp
  then have h8: "\<forall>base part tot. \<not> multipart_stem ''weights'' base part tot"
    by (simp add: re_match_None_iff)
  from C2_single_file_plan[where urlparse = urlparse_examples and url = ?url,
      OF h1 h2 h3 h4 h5 h6 h7 h8]
  have r: "parse_huggingface_model_url urlparse_examples ?url
       = ([], Some [\<lparr>DownloadUrl = ?url, Author = ?segs ! 0, ModelRepo = ?segs ! 1,
                      ModelName = ''weights'', Extension = ''.bin''\<rparr>])"
    by blast
  have sg: "split (CHR ''/'') (strip_char (CHR ''/'') ''/alice/modelX/weights.bin'') = ?segs"
    using h4 by simp
  show ?thesis using h1 sg s7 n r by simp
qed

text \<open>
  The claim as it was stated covers a URL whose path ends with \<open>/\<close>. The stem of
  its last segment is \<open>weights\<close> and its extension \<open>.bin\<close>, and the one entry of
  the plan has an empty name and an empty extension.
\<close>

theorem C2_trailing_slash_counterexample:
  "urlparse_examples ''https://host/alice/modelX/weights.bin/''
     = Some \<lparr>scheme = ''https'', netloc = ''host'', path = ''/alice/modelX/weights.bin/''\<rparr>
   \<and> split (CHR ''/'') (strip_char (CHR ''/'') ''/alice/modelX/weights.bin/'')
       = [''alice'', ''modelX'', ''weights.bin'']
   \<and> splitext ''weights.bin'' = (''weights'', ''.bin'')
   \<and> re_match ''weights'' = None
   \<and> parse_huggingface_model_url urlparse_examples ''https://host/alice/modelX/weights.bin/''
       = ([], Some [\<lparr>DownloadUrl = ''https://host/alice/modelX/weights.bin/'',
                      Author = ''alice'', ModelRepo = ''modelX'',
                      ModelName = [], Extension = []\<rparr>])"
  by code_simp

text \<open>
  Claim C3, as amended. The planner returns no plan, the value \<open>None\<close>, in these
  cases and no others: \<^verbatim>\<open>urlparse\<close> raises \<^verbatim>\<open>ValueError\<close>, or the parsed URL has
  no scheme or no network location, and then the line printed is \<open>Invalid URL.\<close>; or
  scheme and network location are there and the path has fewer than two segments, and
  then the line printed is \<open>URL structure is invalid.\<close>. In every other case it
  prints nothing and returns a plan. The value returned is \<open>None\<close> in both failure
  cases, so no part of a plan comes with a failure, and the two kinds of failure differ
  in the printed line only.
\<close>

theorem C3_failure_cases:
  "(urlparse url = None \<or> (\<exists>p. urlparse url = Some p \<and> (scheme p = [] \<or> netloc p = []))
      \<longrightarrow> parse_huggingface_model_url urlparse url = ([''Invalid URL.''], None))
   \<and> ((\<exists>p. urlparse url = Some p \<and> scheme p \<noteq> [] \<and> netloc p \<noteq> []
            \<and> length (split (CHR ''/'') (strip_char (CHR ''/'') (path p))) < 2)
      \<longrightarrow> parse_huggingface_model_url urlparse url = ([''URL structure is invalid.''], None))
   \<and> ((\<exists>p. urlparse url = Some p \<and> scheme p \<noteq> [] \<and> netloc p \<noteq> []
            \<and> 2 \<le> length (split (CHR ''/'') (strip_char (CHR ''/'') (path p))))
      \<longrightarrow> (\<exists>tasks. parse_huggingface_model_url urlparse url = ([], Some tasks)))"
proof (intro conjI impI)
  assume "urlparse url = None \<or> (\<exists>p. urlparse url = Some p \<and> (scheme p = [] \<or> netloc p = []))"
  then show "parse_huggingface_model_url urlparse url = ([''Invalid URL.''], None)"
    by (auto simp: parse_huggingface_model_url_def)
next
  assume "\<exists>p. urlparse url = Some p \<and> scheme p \<noteq> [] \<and> netloc p \<noteq> []
            \<and> length (split (CHR ''/'') (strip_char (CHR ''/'') (path p))) < 2"
  then show "parse_huggingface_model_url urlparse url = ([''URL structure is invalid.''], None)"
    by (auto simp: parse_huggingface_model_url_def Let_def)
next
  assume "\<exists>p. urlparse url = Some p \<and> scheme p \<noteq> [] \<and> netloc p \<noteq> []
            \<and> 2 \<le> length (split (CHR ''/'') (strip_char (CHR ''/'') (path p)))"
  then obtain p where p: "urlparse url = Some p" "scheme p \<noteq> []" "netloc p \<noteq> []"
     "2 \<le> length (split (CHR ''/'') (strip_char (CHR ''/'') (path p)))" by blast
  obtain stem ext where se: "splitext (basename (path p)) = (stem, ext)"
    by (cases "splitext (basename (path p))") auto
  show "\<exists>tasks. parse_huggingface_model_url urlparse url = ([], Some tasks)"
    using parse_valid_unfold[of urlparse url p stem ext] p se
    by (auto simp: Let_def split: option.splits)
qed

text \<open>The three cases at concrete URLs.\<close>

theorem C3_failure_cases_witness:
  "urlparse_examples ''host/alice/modelX''
     = Some \<lparr>scheme = [], netloc = [], path = ''host/alice/modelX''\<rparr>
   \<and> parse_huggingface_model_url urlparse_examples ''host/alice/modelX''
       = ([''Invalid URL.''], None)
   \<and> urlparse_examples ''https://host/alice''
     = Some \<lparr>scheme = ''https'', netloc = ''host'', path = ''/alice''\<rparr>
   \<and> split (CHR ''/'') (strip_char (CHR ''/'') ''/alice'') = [''alice'']
   \<and> parse_huggingface_model_url urlparse_examples ''https://host/alice''
       = ([''URL structure is invalid.''], None)
   \<and> (\<exists>tasks. parse_huggingface_model_url urlparse_examples
                   ''https://host/alice/modelX/weights.bin'' = ([], Some tasks))"
proof -
  let ?p1 = "\<lparr>scheme = [], netloc = [], path = ''host/alice/modelX''\<rparr>"
  let ?p2 = "\<lparr>scheme = ''https'', netloc = ''host'', path = ''/alice''\<rparr>"
  let ?p3 = "\<lparr>scheme = ''https'', netloc = ''host'', path = ''/alice/modelX/weights.bin''\<rparr>"
  have h1: "urlparse_examples ''host/alice/modelX'' = Some ?p1" by code_simp
  have h2: "urlparse_examples ''https://host/alice'' = Some ?p2" by code_simp
  have h3: "urlparse_examples ''https://host/alice/modelX/weights.bin'' = Some ?p3" by code_simp
  have s2: "split (CHR ''/'') (strip_char (CHR ''/'') ''/alice'') = [''alice'']" by code_simp
  have s3: "2 \<le> length (split (CHR ''/'') (strip_char (CHR ''/'') ''/alice/modelX/weights.bin''))"
    by code_simp
  have a: "parse_huggingface_model_url urlparse_examples ''host/alice/modelX''
       = ([''Invalid URL.''], None)"
    using C3_failure_cases[of urlparse_examples "''host/alice/modelX''"] h1 by simp
  have b: "parse_huggingface_model_url urlparse_examples ''https://host/alice''
       = ([''URL structure is invalid.''], None)"
    using C3_failure_cases[of urlparse_examples "''https://host/alice''"] h2 s2 by simp
  have c: "\<exists>tasks. parse_huggingface_model_url urlparse_examples
                   ''https://host/alice/modelX/weights.bin'' = ([], Some tasks)"
    using C3_failure_cases[of urlparse_examples "''https://host/alice/modelX/weights.bin''"] h3 s3
    by simp
  show ?thesis using h1 h2 s2 a b c by simp
qed

text \<open>
  The claim as it was stated has the two kinds of failure distinguishable to the caller.
  The caller receives the same value for a URL with no scheme and for a URL with one
  path segment.
\<close>

theorem C3_same_value_counterexample:
  "snd (parse_huggingface_model_url urlparse_examples ''host/alice/modelX'') = None
   \<and> snd (parse_huggingface_model_url urlparse_examples ''https://host/alice'') = None
   \<and> fst (parse_huggingface_model_url urlparse_examples ''host/alice/modelX'')
       = [''Invalid URL.'']
   \<and> fst (parse_huggingface_model_url urlparse_examples ''https://host/alice'')
       = [''URL structure is invalid.'']"
  by code_simp

text \<open>
  Claim C9, as amended. Let the URL parse with a scheme, a network location and at
  least two path segments, let its path not end with \<open>/\<close>, and let the stem of
  its last path segment have the multi-part form with the total \<open>00000\<close>. Then
  the planner prints nothing and returns the empty plan: it does not fail, and it does
  not return the single entry of a file that is not split.
\<close>

theorem C9_zero_total_empty_plan:
  assumes "urlparse url = Some parsed"
    and "scheme parsed \<noteq> []" and "netloc parsed \<noteq> []"
    and "segments = split (CHR ''/'') (strip_char (CHR ''/'') (path parsed))"
    and "2 \<le> length segments"
    and "last (path parsed) \<noteq> CHR ''/''"
    and "splitext (last segments) = (stem, ext)"
    and "multipart_stem stem base part ''00000''"
  shows "parse_huggingface_model_url urlparse url = ([], Some [])"
proof -
  have ne: "path parsed \<noteq> []"
    using assms(4,5) segments_path_nonempty[of "path parsed"] by simp
  have bn: "basename (path parsed) = last segments"
    using basename_last_segment[OF ne assms(6)] assms(4) by simp
  have se: "splitext (basename (path parsed)) = (stem, ext)"
    using assms(7) bn by simp
  have l: "2 \<le> length (split (CHR ''/'') (strip_char (CHR ''/'') (path parsed)))"
    using assms(4,5) by simp
  show ?thesis
    by (rule zero_total_plan_of_basename[where urlparse = urlparse and url = url,
          OF assms(1,2,3) l se assms(8)])
qed

text \<open>A URL that names part 1 of 0.\<close>

theorem C9_zero_total_empty_plan_witness:
  "urlparse_examples ''https://host/alice/modelX/file-00001-of-00000.bin''
     = Some \<lparr>scheme = ''https'', netloc = ''host'',
              path = ''/alice/modelX/file-00001-of-00000.bin''\<rparr>
   \<and> split (CHR ''/'') (strip_char (CHR ''/'') ''/alice/modelX/file-00001-of-00000.bin'')
       = [''alice'', ''modelX'', ''file-00001-of-00000.bin'']
   \<and> splitext ''file-00001-of-00000.bin'' = (''file-00001-of-00000'', ''.bin'')
   \<and> multipart_stem ''file-00001-of-00000'' ''file'' ''00001'' ''00000''
   \<and> parse_huggingface_model_url urlparse_examples
         ''https://host/alice/modelX/file-00001-of-00000.bin'' = ([], Some [])"
proof -
  let ?url = "''https://host/alice/modelX/file-00001-of-00000.bin''"
  let ?parsed = "\<lparr>scheme = ''https'', netloc = ''host'',
                   path = ''/alice/modelX/file-00001-of-00000.bin''\<rparr>"
  let ?segs = "[''alice'', ''modelX'', ''file-00001-of-00000.bin'']"
  have h1: "urlparse_examples ?url = Some ?parsed" by code_simp
  have h2: "scheme ?parsed \<noteq> []" by simp
  have h3: "netloc ?parsed \<noteq> []" by simp
  have h4: "?segs = split (CHR ''/'') (strip_char (CHR ''/'') (path ?parsed))" by code_simp
  have h5: "2 \<le> length ?segs" by simp
  have h6: "last (path ?parsed) \<noteq> CHR ''/''" by simp
  have s7: "splitext ''file-00001-of-00000.bin'' = (''file-00001-of-00000'', ''.bin'')"
    by code_simp
  have h7: "splitext (last ?segs) = (''file-00001-of-00000'', ''.bin'')" using s7 by simp
  have h8: "multipart_stem ''file-00001-of-00000'' ''file'' ''00001'' ''00000''" by code_simp
  have r: "parse_huggingface_model_url urlparse_examples ?url = ([], Some [])"
    by (rule C9_zero_total_empty_plan[where urlparse = urlparse_examples and url = ?url,
      OF h1 h2 h3 h4 h5 h6 h7 h8])
  have sg: "split (CHR ''/'') (strip_char (CHR ''/'') ''/alice/modelX/file-00001-of-00000.bin'')
       = ?segs" using h4 by simp
  show ?thesis using h1 sg s7 h8 r by simp
qed

text \<open>
  The claim as it was stated covers a URL whose path ends with \<open>/\<close>. The last of
  its three segments has the multi-part form with total \<open>00000\<close>, and the plan is
  one entry with an empty name, not the empty plan.
\<close>

theorem C9_trailing_slash_counterexample:
  "urlparse_examples ''https://host/alice/modelX/file-00001-of-00000.bin/''
     = Some \<lparr>scheme = ''https'', netloc = ''host'',
              path = ''/alice/modelX/file-00001-of-00000.bin/''\<rparr>
   \<and> split (CHR ''/'') (strip_char (CHR ''/'') ''/alice/modelX/file-00001-of-00000.bin/'')
       = [''alice'', ''modelX'', ''file-00001-of-00000.bin'']
   \<and> splitext ''file-00001-of-00000.bin'' = (''file-00001-of-00000'', ''.bin'')
   \<and> multipart_stem ''file-00001-of-00000'' ''file'' ''00001'' ''00000''
   \<and> parse_huggingface_model_url urlparse_examples
         ''https://host/alice/modelX/file-00001-of-00000.bin/''
       = ([], Some [\<lparr>DownloadUrl = ''https://host/alice/modelX/file-00001-of-00000.bin/'',
                      Author = ''alice'', ModelRepo = ''modelX'',
                      ModelName = [], Extension = []\<rparr>])"
  by code_simp

text \<open>
  Claim C10, as amended. Let the URL parse with a scheme and a network location, let
  its path have exactly two segments and not end with \<open>/\<close>, and let the stem of the
  second segment not have the multi-part form. Then the planner prints nothing and
  returns one entry whose name is the stem of the second segment, whose repository is
  that segment, and whose download URL is the input URL unchanged.
\<close>

theorem C10_two_segment_url:
  assumes "urlparse url = Some parsed"
    and "scheme parsed \<noteq> []" and "netloc parsed \<noteq> []"
    and "segments = split (CHR ''/'') (strip_char (CHR ''/'') (path parsed))"
    and "length segments = 2"
    and "last (path parsed) \<noteq> CHR ''/''"
    and "splitext (segments ! 1) = (stem, ext)"
    and "\<forall>base part tot. \<not> multipart_stem stem base part tot"
  shows "parse_huggingface_model_url urlparse url =
           ([], Some [\<lparr>DownloadUrl = url, Author = segments ! 0, ModelRepo = segments ! 1,
                        ModelName = stem, Extension = ext\<rparr>])"
proof -
  obtain a b where ab: "segments = [a, b]"
    using assms(5) by (cases segments; cases "tl segments") auto
  have bn: "basename (path parsed) = b"
    using basename_two_segments[of "path parsed" a b] assms(4,6) ab by simp
  have se: "splitext (basename (path parsed)) = (stem, ext)"
    using assms(7) ab bn by simp
  have m: "re_match stem = None" using assms(8) by (simp add: re_match_None_iff)
  have l: "2 \<le> length (split (CHR ''/'') (strip_char (CHR ''/'') (path parsed)))"
    using assms(4,5) by simp
  show ?thesis
    using parse_valid_unfold[of urlparse url parsed stem ext] assms(1,2,3) l se m assms(4)
    by (simp add: Let_def)
qed

text \<open>A URL of author and repository only.\<close>

theorem C10_two_segment_url_witness:
  "urlparse_examples ''https://host/alice/modelX''
     = Some \<lparr>scheme = ''https'', netloc = ''host'', path = ''/alice/modelX''\<rparr>
   \<and> split (CHR ''/'') (strip_char (CHR ''/'') ''/alice/modelX'') = [''alice'', ''modelX'']
   \<and> splitext ''modelX'' = (''modelX'', [])
   \<and> re_match ''modelX'' = None
   \<and> parse_huggingface_model_url urlparse_examples ''https://host/alice/modelX''
       = ([], Some [\<lparr>DownloadUrl = ''https://host/alice/modelX'', Author = ''alice'',
                      ModelRepo = ''modelX'', ModelName = ''modelX'', Extension = []\<rparr>])"
proof -
  let ?url = "''https://host/alice/modelX''"
  let ?parsed = "\<lparr>scheme = ''https'', netloc = ''host'', path = ''/alice/modelX''\<rparr>"
  have h1: "urlparse_examples ?url = Some ?parsed" by code_simp
  have h2: "scheme ?parsed \<noteq> []" by simp
  have h3: "netloc ?parsed \<noteq> []" by simp
  have h4: "[''alice'', ''modelX'']
              = split (CHR ''/'') (strip_char (CHR ''/'') (path ?parsed))" by code_simp
  have h5: "length [''alice'', ''modelX''] = 2" by simp
  have h6: "last (path ?parsed) \<noteq> CHR ''/''" by simp
  have h7: "splitext ([''alice'', ''modelX''] ! 1) = (''modelX'', [])" by code_simp
  have n: "re_match ''modelX'' = None" by code_simp
  then have h8: "\<forall>base part tot. \<not> multipart_stem ''modelX'' base part tot"
    by (simp add: re_match_None_iff)
  have s: "splitext ''modelX'' = (''modelX'', [])" using h7 by simp
  have r: "parse_huggingface_model_url urlparse_examples ?url
       = ([], Some [\<lparr>DownloadUrl = ?url, Author = [''alice'', ''modelX''] ! 0,
                      ModelRepo = [''alice'', ''modelX''] ! 1,
                      ModelName = ''modelX'', Extension = []\<rparr>])"
    by (rule C10_two_segment_url[where urlparse = urlparse_examples and url = ?url,
      OF h1 h2 h3 h4 h5 h6 h7 h8])
  show ?thesis using h1 h4[symmetric] s n r by simp
qed

text \<open>
  The claim as it was stated fails on two URLs whose paths have exactly two segments.
  With a final \<open>/\<close> the name of the entry is empty, not the stem of the second
  segment; with a second segment of the multi-part form the plan has three entries.
\<close>

theorem C10_counterexample:
  "split (CHR ''/'') (strip_char (CHR ''/'') ''/alice/modelX/'') = [''alice'', ''modelX'']
   \<and> parse_huggingface_model_url urlparse_examples ''https://host/alice/modelX/''
       = ([], Some [\<lparr>DownloadUrl = ''https://host/alice/modelX/'', Author = ''alice'',
                      ModelRepo = ''modelX'', ModelName = [], Extension = []\<rparr>])
   \<and> split (CHR ''/'') (strip_char (CHR ''/'') ''/alice/part-00001-of-00003'')
       = [''alice'', ''part-00001-of-00003'']
   \<and> parse_huggingface_model_url urlparse_examples ''https://host/alice/part-00001-of-00003''
       = ([], Some [\<lparr>DownloadUrl = ''https://host/alice/part-00001-of-00003'',
                      Author = ''alice'', ModelRepo = ''part-00001-of-00003'',
                      ModelName = ''part-00001-of-00003'', Extension = []\<rparr>,
                    \<lparr>DownloadUrl = ''https://host/alice/part-00002-of-00003'',
                      Author = ''alice'', ModelRepo = ''part-00001-of-00003'',
                      ModelName = ''part-00002-of-00003'', Extension = []\<rparr>,
                    \<lparr>DownloadUrl = ''https://host/alice/part-00003-of-00003'',
                      Author = ''alice'', ModelRepo = ''part-00001-of-00003'',
                      ModelName = ''part-00003-of-00003'', Extension = []\<rparr>])"
  by code_simp

section \<open>Lemmas on the orchestrator\<close>

text \<open>
  The poll loop is unfolded one evaluation of its condition at a time; the body of the
  loop over the plan is then computed for an entry that completes, for one whose
  process is stopped in the poll loop, and for one before which the event is set.
\<close>

lemma forwarded_empty: "forwarded e n n = []"
  by (simp add: forwarded_def)

lemma forwarded_step: "m < n \<Longrightarrow> forwarded e m n = line_of (polls e m) @ forwarded e (Suc m) n"
  by (simp add: forwarded_def upt_conv_Cons)

lemma alive_unstoppedD: "alive_unstopped p \<Longrightarrow> \<exists>out. p = Alive out False"
  by (cases p) (auto simp: alive_unstopped_def)

lemma stop_event_unset: "\<not> stop_event s \<Longrightarrow> s\<lparr>stop_event := False\<rparr> = s"
  by (cases s) simp

lemma stop_event_unset_log:
  "\<not> stop_event s \<Longrightarrow> s\<lparr>log_queue := l, stop_event := False\<rparr> = s\<lparr>log_queue := l\<rparr>"
  by (cases s) simp

lemma poll_step_alive:
  assumes "polls e m = Alive out False" "\<not> stop_event s"
  shows "poll_loop e h m s
           = poll_loop e h (Suc m) (s\<lparr>log_queue := log_queue s @ line_of (polls e m)\<rparr>)"
  using assms
  by (subst poll_loop.simps)
     (simp add: Let_def observe_stop_def put_def line_of_def stop_event_unset
        stop_event_unset_log)

lemma poll_step_exited:
  assumes "polls e m = Exited"
  shows "poll_loop e h m s = Some s"
  using assms by (subst poll_loop.simps) simp

lemma poll_step_stop:
  assumes "polls e m = Alive out True"
  shows "poll_loop e h m s
           = Some (stop_process e h
                     (s\<lparr>log_queue := log_queue s @ line_of (polls e m), stop_event := True\<rparr>))"
  using assms
  by (subst poll_loop.simps) (simp add: Let_def observe_stop_def put_def line_of_def)

lemma poll_loop_exits:
  assumes "\<not> stop_event s" "\<forall>i. m \<le> i \<and> i < n \<longrightarrow> alive_unstopped (polls e i)"
    "polls e n = Exited" "m \<le> n"
  shows "poll_loop e h m s = Some (s\<lparr>log_queue := log_queue s @ forwarded e m n\<rparr>)"
  using assms
proof (induction "n - m" arbitrary: m s)
  case 0
  then have "m = n" by simp
  then show ?case using 0 by (simp add: poll_step_exited forwarded_empty)
next
  case (Suc d)
  then have mn: "m < n" by simp
  then obtain out where out: "polls e m = Alive out False"
    using Suc.prems(2) alive_unstoppedD by blast
  let ?s = "s\<lparr>log_queue := log_queue s @ line_of (polls e m)\<rparr>"
  have "poll_loop e h (Suc m) ?s = Some (?s\<lparr>log_queue := log_queue ?s @ forwarded e (Suc m) n\<rparr>)"
  proof (rule Suc.hyps(1))
    show "d = n - Suc m" using Suc.hyps(2) by simp
    show "\<not> stop_event ?s" using Suc.prems(1) by simp
    show "\<forall>i. Suc m \<le> i \<and> i < n \<longrightarrow> alive_unstopped (polls e i)" using Suc.prems(2) by simp
    show "polls e n = Exited" by (rule Suc.prems(3))
    show "Suc m \<le> n" using mn by simp
  qed
  then show ?case
    using poll_step_alive[OF out Suc.prems(1), of h] forwarded_step[OF mn, of e] by simp
qed

lemma poll_loop_stopped:
  assumes "\<not> stop_event s" "\<forall>i. m \<le> i \<and> i < n \<longrightarrow> alive_unstopped (polls e i)"
    "polls e n = Alive out True" "m \<le> n"
  shows "poll_loop e h m s
           = Some (stop_process e h
                     (s\<lparr>log_queue := log_queue s @ forwarded e m (Suc n), stop_event := True\<rparr>))"
  using assms
proof (induction "n - m" arbitrary: m s)
  case 0
  then have "m = n" by simp
  then show ?case using 0 poll_step_stop[of e n out h s] forwarded_step[of n "Suc n" e]
    by (simp add: forwarded_empty)
next
  case (Suc d)
  then have mn: "m < n" by simp
  then obtain out' where out: "polls e m = Alive out' False"
    using Suc.prems(2) alive_unstoppedD by blast
  let ?s = "s\<lparr>log_queue := log_queue s @ line_of (polls e m)\<rparr>"
  have "poll_loop e h (Suc m) ?s
          = Some (stop_process e h
                    (?s\<lparr>log_queue := log_queue ?s @ forwarded e (Suc m) (Suc n),
                       stop_event := True\<rparr>))"
  proof (rule Suc.hyps(1))
    show "d = n - Suc m" using Suc.hyps(2) by simp
    show "\<not> stop_event ?s" using Suc.prems(1) by simp
    show "\<forall>i. Suc m \<le> i \<and> i < n \<longrightarrow> alive_unstopped (polls e i)" using Suc.prems(2) by simp
    show "polls e n = Alive out True" by (rule Suc.prems(3))
    show "Suc m \<le> n" using mn by simp
  qed
  moreover have "forwarded e m (Suc n) = line_of (polls e m) @ forwarded e (Suc m) (Suc n)"
    using mn by (simp add: forwarded_step)
  ultimately show ?case
    using poll_step_alive[OF out Suc.prems(1), of h] by simp
qed

lemma start_model_unset:
  assumes "\<not> stop_event s" "\<not> stop_before e"
  shows "start_model os e p d ses model s =
     (s\<lparr>made_dirs := made_dirs s @ [output_path_of os d model],
        log_queue := log_queue s @ [''Running aria2c for: '' @ ModelName model],
        spawned := spawned s @ [aria2c_call os p d ses model],
        aria2c_process := Some (length (spawned s))\<rparr>,
      Some (length (spawned s)))"
  using assms
  by (simp add: start_model_def Let_def observe_stop_def put_def set_process_def
        stop_event_unset)

lemma start_model_set:
  assumes "stop_event s \<or> stop_before e"
  shows "start_model os e p d ses model s =
     (s\<lparr>stop_event := True,
        log_queue := log_queue s @ [''Download cancelled for: '' @ ModelName model
                                      @ '' (and subsequent downloads)'']\<rparr>,
      None)"
  using assms
  by (auto simp: start_model_def Let_def observe_stop_def put_def)

lemma exits_afterD:
  "exits_after e n \<Longrightarrow> (\<forall>i. 0 \<le> i \<and> i < n \<longrightarrow> alive_unstopped (polls e i)) \<and> polls e n = Exited"
  by (simp add: exits_after_def)

lemma download_model_completes:
  assumes "\<not> stop_event s" "completes e n"
  shows "download_model os e p d ses model s =
     Some (False,
       s\<lparr>made_dirs := made_dirs s @ [output_path_of os d model],
         log_queue := log_queue s @ [''Running aria2c for: '' @ ModelName model]
            @ forwarded e 0 n
            @ [if returncode e = 0 then ''Download finished for: '' @ ModelName model
               else ''aria2c error during download '' @ ModelName model @ '': ''
                      @ strip_ws (stderr_text e)],
         spawned := spawned s @ [aria2c_call os p d ses model],
         aria2c_process := None\<rparr>)"
proof -
  from assms(2) have sb: "\<not> stop_before e" and ex: "exits_after e n" and sa: "\<not> stop_after e"
    by (simp_all add: completes_def)
  let ?s1 = "s\<lparr>made_dirs := made_dirs s @ [output_path_of os d model],
        log_queue := log_queue s @ [''Running aria2c for: '' @ ModelName model],
        spawned := spawned s @ [aria2c_call os p d ses model],
        aria2c_process := Some (length (spawned s))\<rparr>"
  have st: "start_model os e p d ses model s = (?s1, Some (length (spawned s)))"
    by (rule start_model_unset[OF assms(1) sb])
  have ns: "\<not> stop_event ?s1" using assms(1) by simp
  have pl: "poll_loop e (length (spawned s)) 0 ?s1
              = Some (?s1\<lparr>log_queue := log_queue ?s1 @ forwarded e 0 n\<rparr>)"
    using poll_loop_exits[OF ns, of 0 n e] exits_afterD[OF ex] by simp
  have dm: "download_model os e p d ses model s
              = Some (finish_model e model (?s1\<lparr>log_queue := log_queue ?s1 @ forwarded e 0 n\<rparr>))"
    by (simp only: download_model_def st pl prod.case option.case)
  show ?thesis
    unfolding dm using assms(1) sa
    by (simp add: finish_model_def Let_def observe_stop_def put_def set_process_def
          stop_event_unset)
qed

lemma stopped_atD:
  "stopped_at e n \<Longrightarrow>
     (\<forall>i. 0 \<le> i \<and> i < n \<longrightarrow> alive_unstopped (polls e i)) \<and> (\<exists>out. polls e n = Alive out True)"
  by (simp add: stopped_at_def)

lemma download_model_stopped:
  assumes "\<not> stop_event s" "\<not> stop_before e" "stopped_at e n"
  shows "download_model os e p d ses model s =
     Some (True,
       s\<lparr>made_dirs := made_dirs s @ [output_path_of os d model],
         log_queue := log_queue s @ [''Running aria2c for: '' @ ModelName model]
            @ forwarded e 0 (Suc n)
            @ [''Stop signal received. Terminating process gracefully...'']
            @ (if wait_times_out e
               then [''Process did not exit in time; killing it now...''] else []),
         spawned := spawned s @ [aria2c_call os p d ses model],
         aria2c_process := Some (length (spawned s)),
         proc_calls := proc_calls s
            @ [(length (spawned s), Terminate), (length (spawned s), Wait 5)]
            @ (if wait_times_out e then [(length (spawned s), Kill)] else []),
         stop_event := False\<rparr>)"
proof -
  let ?s1 = "s\<lparr>made_dirs := made_dirs s @ [output_path_of os d model],
        log_queue := log_queue s @ [''Running aria2c for: '' @ ModelName model],
        spawned := spawned s @ [aria2c_call os p d ses model],
        aria2c_process := Some (length (spawned s))\<rparr>"
  have st: "start_model os e p d ses model s = (?s1, Some (length (spawned s)))"
    by (rule start_model_unset[OF assms(1,2)])
  have ns: "\<not> stop_event ?s1" using assms(1) by simp
  from stopped_atD[OF assms(3)] obtain out where
    al: "\<forall>i. 0 \<le> i \<and> i < n \<longrightarrow> alive_unstopped (polls e i)" and out: "polls e n = Alive out True"
    by blast
  have pl: "poll_loop e (length (spawned s)) 0 ?s1
              = Some (stop_process e (length (spawned s))
                     (?s1\<lparr>log_queue := log_queue ?s1 @ forwarded e 0 (Suc n),
                         stop_event := True\<rparr>))"
    using poll_loop_stopped[OF ns al out, of "length (spawned s)"] by simp
  have dm: "download_model os e p d ses model s
              = Some (finish_model e model (stop_process e (length (spawned s))
                     (?s1\<lparr>log_queue := log_queue ?s1 @ forwarded e 0 (Suc n),
                         stop_event := True\<rparr>)))"
    by (simp only: download_model_def st pl prod.case option.case)
  show ?thesis
    unfolding dm
    by (simp add: finish_model_def stop_process_def Let_def observe_stop_def put_def call_def)
qed

lemma download_model_stop_before:
  assumes "stop_event s \<or> stop_before e"
  shows "download_model os e p d ses model s =
     Some (True,
       s\<lparr>stop_event := True,
         log_queue := log_queue s @ [''Download cancelled for: '' @ ModelName model
                                       @ '' (and subsequent downloads)'']\<rparr>)"
  by (simp add: download_model_def start_model_set[OF assms])

lemma for_models_completed_prefix:
  assumes "\<not> stop_event s" "\<forall>i<length ms1. \<exists>n. completes (te (k + i)) n"
  shows "\<exists>s1. for_models os te p d ses k (ms1 @ ms2) s
               = for_models os te p d ses (k + length ms1) ms2 s1
           \<and> \<not> stop_event s1
           \<and> spawned s1 = spawned s @ map (aria2c_call os p d ses) ms1
           \<and> proc_calls s1 = proc_calls s
           \<and> downloading s1 = downloading s
           \<and> (\<exists>l. log_queue s1 = log_queue s @ l)"
  using assms
proof (induction ms1 arbitrary: k s)
  case Nil
  show ?case by (rule exI[of _ s]) (simp add: Nil.prems(1))
next
  case (Cons m ms1)
  from Cons.prems(2) obtain n where n: "completes (te k) n" by fastforce
  define s' where "s' = s\<lparr>made_dirs := made_dirs s @ [output_path_of os d m],
         log_queue := log_queue s @ [''Running aria2c for: '' @ ModelName m]
            @ forwarded (te k) 0 n
            @ [if returncode (te k) = 0 then ''Download finished for: '' @ ModelName m
               else ''aria2c error during download '' @ ModelName m @ '': ''
                      @ strip_ws (stderr_text (te k))],
         spawned := spawned s @ [aria2c_call os p d ses m],
         aria2c_process := None\<rparr>"
  have dm: "download_model os (te k) p d ses m s = Some (False, s')"
    unfolding s'_def by (rule download_model_completes[OF Cons.prems(1) n])
  have step: "for_models os te p d ses k ((m # ms1) @ ms2) s
                = for_models os te p d ses (Suc k) (ms1 @ ms2) s'"
    by (simp add: dm)
  have ns: "\<not> stop_event s'" using Cons.prems(1) by (simp add: s'_def)
  have rest: "\<forall>i<length ms1. \<exists>n. completes (te (Suc k + i)) n"
  proof (intro allI impI)
    fix i assume "i < length ms1"
    then have "Suc i < length (m # ms1)" by simp
    then have "\<exists>n. completes (te (k + Suc i)) n" using Cons.prems(2) by blast
    then show "\<exists>n. completes (te (Suc k + i)) n" by simp
  qed
  from Cons.IH[OF ns rest] obtain s1 where s1:
    "for_models os te p d ses (Suc k) (ms1 @ ms2) s'
       = for_models os te p d ses (Suc k + length ms1) ms2 s1"
    "\<not> stop_event s1"
    "spawned s1 = spawned s' @ map (aria2c_call os p d ses) ms1"
    "proc_calls s1 = proc_calls s'"
    "downloading s1 = downloading s'"
    "\<exists>l. log_queue s1 = log_queue s' @ l"
    by blast
  have l: "\<exists>l. log_queue s1 = log_queue s @ l"
    using s1(6) by (auto simp: s'_def)
  show ?case
    apply (rule exI[of _ s1])
    using step s1(1-5) l by (simp add: s'_def)
qed

lemma download_in_thread_run:
  assumes "path_exists os (aria2c_path_of os)" "ms \<noteq> []" "d \<noteq> []"
  shows "download_in_thread os te (Some ms) d ses s =
     (case for_models os te (aria2c_path_of os) d ses 0 ms s of
        None \<Rightarrow> None
      | Some s1 \<Rightarrow>
          Some (set_downloading_state False (put ''Download finished or cancelled.'' s1)))"
  using assms by (cases ms) (simp_all add: download_in_thread_def Let_def)

lemma for_models_stopped_run:
  assumes "k < length ms" "\<not> stop_event s" "\<forall>i<k. \<exists>n. completes (te i) n"
    "\<not> stop_before (te k)" "stopped_at (te k) n"
  shows "\<exists>s'. for_models os te p d ses 0 ms s = Some s'
      \<and> spawned s' = spawned s @ map (aria2c_call os p d ses) (take (Suc k) ms)
      \<and> proc_calls s' = proc_calls s
            @ [(length (spawned s) + k, Terminate), (length (spawned s) + k, Wait 5)]
            @ (if wait_times_out (te k) then [(length (spawned s) + k, Kill)] else [])
      \<and> aria2c_process s' = Some (length (spawned s) + k)
      \<and> \<not> stop_event s'
      \<and> downloading s' = downloading s
      \<and> ''Stop signal received. Terminating process gracefully...'' \<in> set (log_queue s')"
proof -
  have ms: "ms = take k ms @ (ms ! k) # drop (Suc k) ms"
    using assms(1) by (simp add: id_take_nth_drop)
  have lk: "length (take k ms) = k" using assms(1) by simp
  have pre: "\<forall>i<length (take k ms). \<exists>n. completes (te (0 + i)) n"
    using assms(3) lk by simp
  from for_models_completed_prefix[OF assms(2) pre, of os p d ses "(ms ! k) # drop (Suc k) ms"]
  obtain s1 where s1:
    "for_models os te p d ses 0 (take k ms @ (ms ! k) # drop (Suc k) ms) s
       = for_models os te p d ses (0 + length (take k ms)) ((ms ! k) # drop (Suc k) ms) s1"
    "\<not> stop_event s1"
    "spawned s1 = spawned s @ map (aria2c_call os p d ses) (take k ms)"
    "proc_calls s1 = proc_calls s"
    "downloading s1 = downloading s"
    by blast
  have e1: "for_models os te p d ses 0 ms s
              = for_models os te p d ses 0 (take k ms @ (ms ! k) # drop (Suc k) ms) s"
    by (rule arg_cong[OF ms, of "\<lambda>x. for_models os te p d ses 0 x s"])
  have run: "for_models os te p d ses 0 ms s
               = for_models os te p d ses k ((ms ! k) # drop (Suc k) ms) s1"
    using e1 s1(1) by (simp only: lk plus_nat.add_0)
  define s' where "s' = s1\<lparr>made_dirs := made_dirs s1 @ [output_path_of os d (ms ! k)],
         log_queue := log_queue s1 @ [''Running aria2c for: '' @ ModelName (ms ! k)]
            @ forwarded (te k) 0 (Suc n)
            @ [''Stop signal received. Terminating process gracefully...'']
            @ (if wait_times_out (te k)
               then [''Process did not exit in time; killing it now...''] else []),
         spawned := spawned s1 @ [aria2c_call os p d ses (ms ! k)],
         aria2c_process := Some (length (spawned s1)),
         proc_calls := proc_calls s1
            @ [(length (spawned s1), Terminate), (length (spawned s1), Wait 5)]
            @ (if wait_times_out (te k) then [(length (spawned s1), Kill)] else []),
         stop_event := False\<rparr>"
  have dm: "download_model os (te k) p d ses (ms ! k) s1 = Some (True, s')"
    unfolding s'_def by (rule download_model_stopped[OF s1(2) assms(4,5)])
  have res: "for_models os te p d ses 0 ms s = Some s'"
    by (simp add: run dm)
  have len: "length (spawned s1) = length (spawned s) + k"
    using s1(3) lk by simp
  have tk: "take (Suc k) ms = take k ms @ [ms ! k]"
    using assms(1) by (simp add: take_Suc_conv_app_nth)
  have sp: "spawned s' = spawned s @ map (aria2c_call os p d ses) (take (Suc k) ms)"
    by (simp add: s'_def s1(3) tk)
  have pc: "proc_calls s' = proc_calls s
            @ [(length (spawned s) + k, Terminate), (length (spawned s) + k, Wait 5)]
            @ (if wait_times_out (te k) then [(length (spawned s) + k, Kill)] else [])"
    by (simp add: s'_def s1(4) len)
  have ap: "aria2c_process s' = Some (length (spawned s) + k)" by (simp add: s'_def len)
  have se: "\<not> stop_event s'" by (simp add: s'_def)
  have dl: "downloading s' = downloading s" by (simp add: s'_def s1(5))
  have lg: "''Stop signal received. Terminating process gracefully...'' \<in> set (log_queue s')"
    by (simp add: s'_def)
  show ?thesis using res sp pc ap se dl lg by blast
qed

lemma for_models_stop_before_run:
  assumes "k < length ms" "\<not> stop_event s" "\<forall>i<k. \<exists>n. completes (te i) n"
    "stop_before (te k)"
  shows "\<exists>s'. for_models os te p d ses 0 ms s = Some s'
      \<and> stop_event s'
      \<and> spawned s' = spawned s @ map (aria2c_call os p d ses) (take k ms)
      \<and> ''Download cancelled for: '' @ ModelName (ms ! k) @ '' (and subsequent downloads)''
          \<in> set (log_queue s')"
proof -
  have ms: "ms = take k ms @ (ms ! k) # drop (Suc k) ms"
    using assms(1) by (simp add: id_take_nth_drop)
  have lk: "length (take k ms) = k" using assms(1) by simp
  have pre: "\<forall>i<length (take k ms). \<exists>n. completes (te (0 + i)) n"
    using assms(3) lk by simp
  from for_models_completed_prefix[OF assms(2) pre, of os p d ses "(ms ! k) # drop (Suc k) ms"]
  obtain s1 where s1:
    "for_models os te p d ses 0 (take k ms @ (ms ! k) # drop (Suc k) ms) s
       = for_models os te p d ses (0 + length (take k ms)) ((ms ! k) # drop (Suc k) ms) s1"
    "spawned s1 = spawned s @ map (aria2c_call os p d ses) (take k ms)"
    by blast
  have e1: "for_models os te p d ses 0 ms s
              = for_models os te p d ses 0 (take k ms @ (ms ! k) # drop (Suc k) ms) s"
    by (rule arg_cong[OF ms, of "\<lambda>x. for_models os te p d ses 0 x s"])
  have run: "for_models os te p d ses 0 ms s
               = for_models os te p d ses k ((ms ! k) # drop (Suc k) ms) s1"
    using e1 s1(1) by (simp only: lk plus_nat.add_0)
  define s' where "s' = s1\<lparr>stop_event := True,
         log_queue := log_queue s1 @ [''Download cancelled for: '' @ ModelName (ms ! k)
                                       @ '' (and subsequent downloads)'']\<rparr>"
  have dm: "download_model os (te k) p d ses (ms ! k) s1 = Some (True, s')"
    unfolding s'_def using assms(4) by (simp add: download_model_stop_before)
  have res: "for_models os te p d ses 0 ms s = Some s'" by (simp add: run dm)
  show ?thesis
    apply (rule exI[of _ s'])
    using res s1(2) by (simp add: s'_def)
qed

lemma finish_model_clears: "\<not> stop_event (snd (finish_model e model s))"
  by (simp add: finish_model_def Let_def observe_stop_def put_def set_process_def)

lemma download_model_clears:
  assumes "\<not> stop_event s" "\<not> stop_before e"
    "download_model os e p d ses model s = Some (b, s')"
  shows "\<not> stop_event s'"
proof -
  let ?s1 = "s\<lparr>made_dirs := made_dirs s @ [output_path_of os d model],
        log_queue := log_queue s @ [''Running aria2c for: '' @ ModelName model],
        spawned := spawned s @ [aria2c_call os p d ses model],
        aria2c_process := Some (length (spawned s))\<rparr>"
  have st: "start_model os e p d ses model s = (?s1, Some (length (spawned s)))"
    by (rule start_model_unset[OF assms(1,2)])
  from assms(3) have "(case poll_loop e (length (spawned s)) 0 ?s1 of
                         None \<Rightarrow> None
                       | Some s2 \<Rightarrow> Some (finish_model e model s2)) = Some (b, s')"
    by (simp only: download_model_def st prod.case option.case)
  then obtain s2 where "finish_model e model s2 = (b, s')"
    by (cases "poll_loop e (length (spawned s)) 0 ?s1") auto
  then have "s' = snd (finish_model e model s2)" by simp
  then show ?thesis by (simp add: finish_model_clears)
qed

lemma for_models_clears:
  assumes "for_models os te p d ses k ms s = Some s'" "\<not> stop_event s"
    "\<forall>i<length ms. \<not> stop_before (te (k + i))"
  shows "\<not> stop_event s'"
  using assms
proof (induction ms arbitrary: k s)
  case Nil
  then show ?case by simp
next
  case (Cons m ms)
  have sb: "\<not> stop_before (te k)" using Cons.prems(3) by fastforce
  from Cons.prems(1) obtain b s1 where
    dm: "download_model os (te k) p d ses m s = Some (b, s1)"
    by (cases "download_model os (te k) p d ses m s") auto
  have c1: "\<not> stop_event s1" by (rule download_model_clears[OF Cons.prems(2) sb dm])
  show ?case
  proof (cases b)
    case True
    then have "s' = s1" using Cons.prems(1) dm by simp
    then show ?thesis using c1 by simp
  next
    case False
    then have r: "for_models os te p d ses (Suc k) ms s1 = Some s'"
      using Cons.prems(1) dm by simp
    have rest: "\<forall>i<length ms. \<not> stop_before (te (Suc k + i))"
    proof (intro allI impI)
      fix i assume "i < length ms"
      then have "Suc i < length (m # ms)" by simp
      then have "\<not> stop_before (te (k + Suc i))" using Cons.prems(3) by blast
      then show "\<not> stop_before (te (Suc k + i))" by simp
    qed
    show ?thesis by (rule Cons.IH[OF r c1 rest])
  qed
qed

text \<open>The examples: the platform, the processes and the plan.\<close>

lemma os_example_exists: "path_exists os_example (aria2c_path_of os_example)"
  by (simp add: os_example_def aria2c_path_of_def Let_def)

lemma env_ok_completes: "completes env_ok 1"
  by (simp add: completes_def exits_after_def env_ok_def alive_unstopped_def)

lemma env_fail_completes: "completes env_fail 0"
  by (simp add: completes_def exits_after_def env_fail_def)

lemma env_stopped_at: "stopped_at env_stopped 1"
  by (simp add: stopped_at_def env_stopped_def alive_unstopped_def)

lemma length_plan_example: "length plan_example = 3"
  by (simp add: plan_example_def)

section \<open>The orchestrator: theorems\<close>

text \<open>
  Claim C4. Let the downloader be there and the destination not be empty, let the
  entries before entry \<open>k\<close> of the plan complete, and let the event be found set by
  a check in the poll loop of entry \<open>k\<close>, after \<open>n\<close> polls that found it not set
  (this is how the model sees the event set while the process is streaming). Then the
  run ends. The process of entry \<open>k\<close> is asked to terminate, is waited for with a
  limit of 5 seconds and is killed exactly when that wait runs out; these are the only
  calls on any process. The processes spawned in the run are those of the entries up to
  \<open>k\<close>, in order: none is spawned for a later entry. The message that the process
  is being terminated is on the queue, and the application is no longer downloading.
\<close>

theorem C4_cancel_while_streaming:
  assumes "path_exists os (aria2c_path_of os)" and "download_directory \<noteq> []"
    and "k < length ms" and "\<not> stop_event s"
    and "\<forall>i<k. \<exists>n. completes (te i) n"
    and "\<not> stop_before (te k)" and "stopped_at (te k) n"
  shows "\<exists>s'. download_in_thread os te (Some ms) download_directory sessions s = Some s'
      \<and> spawned s' = spawned s
           @ map (aria2c_call os (aria2c_path_of os) download_directory sessions)
               (take (Suc k) ms)
      \<and> proc_calls s' = proc_calls s
           @ [(length (spawned s) + k, Terminate), (length (spawned s) + k, Wait 5)]
           @ (if wait_times_out (te k) then [(length (spawned s) + k, Kill)] else [])
      \<and> ''Stop signal received. Terminating process gracefully...'' \<in> set (log_queue s')
      \<and> \<not> downloading s'"
proof -
  have ne: "ms \<noteq> []" using assms(3) by auto
  from for_models_stopped_run[OF assms(3,4,5,6,7),
      of os "aria2c_path_of os" download_directory sessions]
  obtain s1 where s1:
    "for_models os te (aria2c_path_of os) download_directory sessions 0 ms s = Some s1"
    "spawned s1 = spawned s
           @ map (aria2c_call os (aria2c_path_of os) download_directory sessions)
               (take (Suc k) ms)"
    "proc_calls s1 = proc_calls s
           @ [(length (spawned s) + k, Terminate), (length (spawned s) + k, Wait 5)]
           @ (if wait_times_out (te k) then [(length (spawned s) + k, Kill)] else [])"
    "''Stop signal received. Terminating process gracefully...'' \<in> set (log_queue s1)"
    by blast
  let ?s' = "set_downloading_state False (put ''Download finished or cancelled.'' s1)"
  have run: "download_in_thread os te (Some ms) download_directory sessions s = Some ?s'"
    by (simp add: download_in_thread_run[OF assms(1) ne assms(2)] s1(1))
  have sp: "spawned ?s' = spawned s1" by (simp add: set_downloading_state_def put_def)
  have pc: "proc_calls ?s' = proc_calls s1" by (simp add: set_downloading_state_def put_def)
  have lg: "''Stop signal received. Terminating process gracefully...'' \<in> set (log_queue ?s')"
    using s1(4) by (simp add: set_downloading_state_def put_def)
  have dl: "\<not> downloading ?s'" by (simp add: set_downloading_state_def put_def)
  show ?thesis
    apply (rule exI[of _ ?s'])
    using run sp pc lg dl s1(2,3) by simp
qed

text \<open>
  A plan of three entries: the first completes, the process of the second is stopped in
  its second poll and outlives the wait, the third is never spawned.
\<close>

theorem C4_cancel_while_streaming_witness:
  "path_exists os_example (aria2c_path_of os_example)
   \<and> completes env_ok 1 \<and> stopped_at env_stopped 1 \<and> wait_times_out env_stopped
   \<and> length plan_example = 3
   \<and> (\<exists>s'. download_in_thread os_example (\<lambda>k. if k = 1 then env_stopped else env_ok)
              (Some plan_example) ''/data'' 2 app_started = Some s'
          \<and> length (spawned s') = 2
          \<and> proc_calls s' = [(1, Terminate), (1, Wait 5), (1, Kill)]
          \<and> \<not> downloading s')"
proof -
  let ?te = "\<lambda>k::nat. if k = 1 then env_stopped else env_ok"
  have h2: "''/data'' \<noteq> []" by simp
  have h3: "1 < length plan_example" by (simp add: length_plan_example)
  have h4: "\<not> stop_event app_started" by (simp add: app_started_def)
  have h5: "\<forall>i<1. \<exists>n. completes (?te i) n" using env_ok_completes by auto
  have h6: "\<not> stop_before (?te 1)" by (simp add: env_stopped_def)
  have h7: "stopped_at (?te 1) 1" using env_stopped_at by simp
  have w: "wait_times_out env_stopped" by (simp add: env_stopped_def)
  from C4_cancel_while_streaming[where te = ?te and s = app_started and sessions = 2,
      OF os_example_exists h2 h3 h4 h5 h6 h7]
  obtain s' where s':
    "download_in_thread os_example ?te (Some plan_example) ''/data'' 2 app_started = Some s'"
    "spawned s' = spawned app_started
           @ map (aria2c_call os_example (aria2c_path_of os_example) ''/data'' 2)
               (take (Suc 1) plan_example)"
    "proc_calls s' = proc_calls app_started
           @ [(length (spawned app_started) + 1, Terminate),
              (length (spawned app_started) + 1, Wait 5)]
           @ (if wait_times_out (?te 1) then [(length (spawned app_started) + 1, Kill)]
              else [])"
    "\<not> downloading s'"
    by blast
  have l: "length (spawned s') = 2"
    by (simp add: s'(2) app_started_def length_plan_example)
  have c: "proc_calls s' = [(1, Terminate), (1, Wait 5), (1, Kill)]"
    by (simp add: s'(3) app_started_def w)
  show ?thesis
    using os_example_exists env_ok_completes env_stopped_at w length_plan_example
      s'(1,4) l c by blast
qed

text \<open>
  Claim C5. When the downloader is missing, the run puts one message saying so on the
  queue, sets the application to not downloading and ends. When the downloader is
  there and the plan is \<open>None\<close> or empty, it does the same with the message that
  there is nothing to download; when downloader and plan are there and the destination
  is empty, with the message that the destination is not set. The three checks are
  made in this order, and nothing else of the state changes: no process is spawned or
  called and no directory is made.
\<close>

theorem C5_preconditions:
  "(\<not> path_exists os (aria2c_path_of os) \<longrightarrow>
      download_in_thread os te plan download_directory sessions s
        = Some (s\<lparr>log_queue := log_queue s
                      @ [''aria2c.exe not found in the configuration directory.''],
                   downloading := False\<rparr>))
   \<and> (path_exists os (aria2c_path_of os) \<and> (plan = None \<or> plan = Some []) \<longrightarrow>
      download_in_thread os te plan download_directory sessions s
        = Some (s\<lparr>log_queue := log_queue s @ [''No model information to download.''],
                   downloading := False\<rparr>))
   \<and> (path_exists os (aria2c_path_of os) \<and> plan \<noteq> None \<and> plan \<noteq> Some []
        \<and> download_directory = [] \<longrightarrow>
      download_in_thread os te plan download_directory sessions s
        = Some (s\<lparr>log_queue := log_queue s @ [''Destination directory has not been set.''],
                   downloading := False\<rparr>))
   \<and> (\<not> path_exists os (aria2c_path_of os) \<or> plan = None \<or> plan = Some []
        \<or> download_directory = [] \<longrightarrow>
      (\<exists>s' msg. download_in_thread os te plan download_directory sessions s = Some s'
         \<and> spawned s' = spawned s \<and> proc_calls s' = proc_calls s
         \<and> made_dirs s' = made_dirs s
         \<and> log_queue s' = log_queue s @ [msg] \<and> \<not> downloading s'))"
proof -
  have a: "\<not> path_exists os (aria2c_path_of os) \<Longrightarrow>
      download_in_thread os te plan download_directory sessions s
        = Some (s\<lparr>log_queue := log_queue s
                      @ [''aria2c.exe not found in the configuration directory.''],
                   downloading := False\<rparr>)"
    by (simp add: download_in_thread_def Let_def put_def set_downloading_state_def)
  have b: "path_exists os (aria2c_path_of os) \<Longrightarrow> plan = None \<or> plan = Some [] \<Longrightarrow>
      download_in_thread os te plan download_directory sessions s
        = Some (s\<lparr>log_queue := log_queue s @ [''No model information to download.''],
                   downloading := False\<rparr>)"
    by (auto simp: download_in_thread_def Let_def put_def set_downloading_state_def)
  have c: "path_exists os (aria2c_path_of os) \<Longrightarrow> plan \<noteq> None \<Longrightarrow> plan \<noteq> Some []
        \<Longrightarrow> download_directory = [] \<Longrightarrow>
      download_in_thread os te plan download_directory sessions s
        = Some (s\<lparr>log_queue := log_queue s @ [''Destination directory has not been set.''],
                   downloading := False\<rparr>)"
    by (auto simp: download_in_thread_def Let_def put_def set_downloading_state_def
          split: option.splits list.splits)
  have d: "\<exists>s' msg. download_in_thread os te plan download_directory sessions s = Some s'
         \<and> spawned s' = spawned s \<and> proc_calls s' = proc_calls s
         \<and> made_dirs s' = made_dirs s
         \<and> log_queue s' = log_queue s @ [msg] \<and> \<not> downloading s'"
    if "\<not> path_exists os (aria2c_path_of os) \<or> plan = None \<or> plan = Some []
        \<or> download_directory = []"
  proof (cases "path_exists os (aria2c_path_of os)")
    case False
    then show ?thesis using a by simp
  next
    case True
    show ?thesis
    proof (cases "plan = None \<or> plan = Some []")
      case True
      then show ?thesis using b[OF \<open>path_exists os (aria2c_path_of os)\<close>] by simp
    next
      case False
      then have "download_directory = []" using that \<open>path_exists os (aria2c_path_of os)\<close> by blast
      then show ?thesis using c[OF \<open>path_exists os (aria2c_path_of os)\<close>] False by simp
    qed
  qed
  show ?thesis using a b c d by blast
qed

text \<open>
  The three messages. Everything is missing in the first run, and the message is that
  of the first check; plan and destination are missing in the second.
\<close>

theorem C5_preconditions_witness:
  "path_exists os_example (aria2c_path_of os_example)
   \<and> download_in_thread (os_example\<lparr>path_exists := (\<lambda>p. False)\<rparr>) (\<lambda>k. env_ok) None [] 2
        app_started
      = Some (app_started\<lparr>log_queue :=
                 [''aria2c.exe not found in the configuration directory.''],
               downloading := False\<rparr>)
   \<and> download_in_thread os_example (\<lambda>k. env_ok) (Some []) [] 2 app_started
      = Some (app_started\<lparr>log_queue := [''No model information to download.''],
               downloading := False\<rparr>)
   \<and> download_in_thread os_example (\<lambda>k. env_ok) (Some plan_example) [] 2 app_started
      = Some (app_started\<lparr>log_queue := [''Destination directory has not been set.''],
               downloading := False\<rparr>)"
proof -
  let ?os0 = "os_example\<lparr>path_exists := (\<lambda>p. False)\<rparr>"
  have n0: "\<not> path_exists ?os0 (aria2c_path_of ?os0)" by simp
  have lq: "log_queue app_started = []" by (simp add: app_started_def)
  have pl: "Some plan_example \<noteq> None" "Some plan_example \<noteq> Some []"
    using length_plan_example by auto
  have a: "download_in_thread ?os0 (\<lambda>k. env_ok) None [] 2 app_started
      = Some (app_started\<lparr>log_queue :=
                 [''aria2c.exe not found in the configuration directory.''],
               downloading := False\<rparr>)"
    using C5_preconditions[of ?os0 "\<lambda>k. env_ok" None "[]" 2 app_started] n0 lq by simp
  have b: "download_in_thread os_example (\<lambda>k. env_ok) (Some []) [] 2 app_started
      = Some (app_started\<lparr>log_queue := [''No model information to download.''],
               downloading := False\<rparr>)"
    using C5_preconditions[of os_example "\<lambda>k. env_ok" "Some []" "[]" 2 app_started]
      os_example_exists lq by simp
  have c: "download_in_thread os_example (\<lambda>k. env_ok) (Some plan_example) [] 2 app_started
      = Some (app_started\<lparr>log_queue := [''Destination directory has not been set.''],
               downloading := False\<rparr>)"
    using C5_preconditions[of os_example "\<lambda>k. env_ok" "Some plan_example" "[]" 2 app_started]
      os_example_exists lq pl by simp
  show ?thesis using os_example_exists a b c by simp
qed

text \<open>
  Claim C6. Let the downloader be there and the destination not be empty, let the
  entries before entry \<open>k\<close> complete, and let entry \<open>k\<close> complete with an exit
  code other than 0: its process exits after \<open>n\<close> polls and the event is not set
  at any check. Then the run is the loop over the entries after \<open>k\<close>, started in a
  state \<open>s1\<close>, followed by the last message: nothing of the plan is given up. In
  \<open>s1\<close> the messages of entry \<open>k\<close> end the queue: that it is running, the lines
  of its standard output, and one error message with its name and the stripped text of
  its standard error. The processes spawned so far are those of the entries up to
  \<open>k\<close>, no process has been called, the event is not set and no process is held.
  When there is an entry \<open>k + 1\<close> and the event is not set before its check, the
  first part of its body spawns its process.
\<close>

theorem C6_nonzero_exit_continues:
  assumes "path_exists os (aria2c_path_of os)" and "download_directory \<noteq> []"
    and "k < length ms" and "\<not> stop_event s"
    and "\<forall>i<k. \<exists>n. completes (te i) n"
    and "completes (te k) n" and "returncode (te k) \<noteq> 0"
  shows "\<exists>s1.
      download_in_thread os te (Some ms) download_directory sessions s
        = (case for_models os te (aria2c_path_of os) download_directory sessions (Suc k)
                  (drop (Suc k) ms) s1 of
             None \<Rightarrow> None
           | Some s2 \<Rightarrow>
               Some (set_downloading_state False
                       (put ''Download finished or cancelled.'' s2)))
      \<and> (\<exists>l. log_queue s1 = log_queue s @ l
               @ [''Running aria2c for: '' @ ModelName (ms ! k)]
               @ forwarded (te k) 0 n
               @ [''aria2c error during download '' @ ModelName (ms ! k) @ '': ''
                    @ strip_ws (stderr_text (te k))])
      \<and> spawned s1 = spawned s
           @ map (aria2c_call os (aria2c_path_of os) download_directory sessions)
               (take (Suc k) ms)
      \<and> proc_calls s1 = proc_calls s
      \<and> \<not> stop_event s1
      \<and> aria2c_process s1 = None
      \<and> (Suc k < length ms \<and> \<not> stop_before (te (Suc k)) \<longrightarrow>
           spawned (fst (start_model os (te (Suc k)) (aria2c_path_of os) download_directory
                           sessions (ms ! Suc k) s1))
             = spawned s1 @ [aria2c_call os (aria2c_path_of os) download_directory sessions
                               (ms ! Suc k)])"
proof -
  let ?p = "aria2c_path_of os"
  let ?d = download_directory
  have ne: "ms \<noteq> []" using assms(3) by auto
  have ms: "ms = take k ms @ (ms ! k) # drop (Suc k) ms"
    using assms(3) by (simp add: id_take_nth_drop)
  have lk: "length (take k ms) = k" using assms(3) by simp
  have pre: "\<forall>i<length (take k ms). \<exists>n. completes (te (0 + i)) n"
    using assms(5) lk by simp
  from for_models_completed_prefix[OF assms(4) pre, of os ?p ?d sessions
      "(ms ! k) # drop (Suc k) ms"]
  obtain s0 l where s0:
    "for_models os te ?p ?d sessions 0 (take k ms @ (ms ! k) # drop (Suc k) ms) s
       = for_models os te ?p ?d sessions (0 + length (take k ms))
           ((ms ! k) # drop (Suc k) ms) s0"
    "\<not> stop_event s0"
    "spawned s0 = spawned s @ map (aria2c_call os ?p ?d sessions) (take k ms)"
    "proc_calls s0 = proc_calls s"
    "log_queue s0 = log_queue s @ l"
    by blast
  have e1: "for_models os te ?p ?d sessions 0 ms s
              = for_models os te ?p ?d sessions 0 (take k ms @ (ms ! k) # drop (Suc k) ms) s"
    by (rule arg_cong[OF ms, of "\<lambda>x. for_models os te ?p ?d sessions 0 x s"])
  have run0: "for_models os te ?p ?d sessions 0 ms s
               = for_models os te ?p ?d sessions k ((ms ! k) # drop (Suc k) ms) s0"
    using e1 s0(1) by (simp only: lk plus_nat.add_0)
  define s1 where "s1 = s0\<lparr>made_dirs := made_dirs s0 @ [output_path_of os ?d (ms ! k)],
         log_queue := log_queue s0 @ [''Running aria2c for: '' @ ModelName (ms ! k)]
            @ forwarded (te k) 0 n
            @ [if returncode (te k) = 0 then ''Download finished for: '' @ ModelName (ms ! k)
               else ''aria2c error during download '' @ ModelName (ms ! k) @ '': ''
                      @ strip_ws (stderr_text (te k))],
         spawned := spawned s0 @ [aria2c_call os ?p ?d sessions (ms ! k)],
         aria2c_process := None\<rparr>"
  have dm: "download_model os (te k) ?p ?d sessions (ms ! k) s0 = Some (False, s1)"
    unfolding s1_def by (rule download_model_completes[OF s0(2) assms(6)])
  have run1: "for_models os te ?p ?d sessions 0 ms s
               = for_models os te ?p ?d sessions (Suc k) (drop (Suc k) ms) s1"
    by (simp add: run0 dm)
  have run: "download_in_thread os te (Some ms) ?d sessions s
        = (case for_models os te ?p ?d sessions (Suc k) (drop (Suc k) ms) s1 of
             None \<Rightarrow> None
           | Some s2 \<Rightarrow>
               Some (set_downloading_state False
                       (put ''Download finished or cancelled.'' s2)))"
    by (simp only: download_in_thread_run[OF assms(1) ne assms(2)] run1)
  have lg: "log_queue s1 = log_queue s @ l
               @ [''Running aria2c for: '' @ ModelName (ms ! k)]
               @ forwarded (te k) 0 n
               @ [''aria2c error during download '' @ ModelName (ms ! k) @ '': ''
                    @ strip_ws (stderr_text (te k))]"
    using assms(7) by (simp add: s1_def s0(5))
  have tk: "take (Suc k) ms = take k ms @ [ms ! k]"
    using assms(3) by (simp add: take_Suc_conv_app_nth)
  have sp: "spawned s1 = spawned s @ map (aria2c_call os ?p ?d sessions) (take (Suc k) ms)"
    by (simp add: s1_def s0(3) tk)
  have pc: "proc_calls s1 = proc_calls s" by (simp add: s1_def s0(4))
  have se: "\<not> stop_event s1" using s0(2) by (simp add: s1_def)
  have ap: "aria2c_process s1 = None" by (simp add: s1_def)
  have nx: "Suc k < length ms \<and> \<not> stop_before (te (Suc k)) \<longrightarrow>
           spawned (fst (start_model os (te (Suc k)) ?p ?d sessions (ms ! Suc k) s1))
             = spawned s1 @ [aria2c_call os ?p ?d sessions (ms ! Suc k)]"
    using start_model_unset[OF se, of "te (Suc k)" os ?p ?d sessions "ms ! Suc k"] by simp
  show ?thesis
    apply (rule exI[of _ s1])
    using run lg sp pc se ap nx by blast
qed

text \<open>
  The first of three entries fails with exit code 1; the loop goes on with the other
  two.
\<close>

theorem C6_nonzero_exit_continues_witness:
  "completes env_fail 0 \<and> returncode env_fail \<noteq> 0 \<and> strip_ws (stderr_text env_fail) = ''errorCode=3''
   \<and> (\<exists>s1. download_in_thread os_example (\<lambda>k. if k = 0 then env_fail else env_ok)
               (Some plan_example) ''/data'' 2 app_started
             = (case for_models os_example (\<lambda>k. if k = 0 then env_fail else env_ok)
                       (aria2c_path_of os_example) ''/data'' 2 1 (drop 1 plan_example) s1 of
                  None \<Rightarrow> None
                | Some s2 \<Rightarrow>
                    Some (set_downloading_state False
                            (put ''Download finished or cancelled.'' s2)))
          \<and> (\<exists>l. log_queue s1
                   = l @ [''Running aria2c for: file-00001-of-00003'',
                          ''aria2c error during download file-00001-of-00003: errorCode=3''])
          \<and> length (spawned s1) = 1
          \<and> aria2c_process s1 = None
          \<and> length (spawned (fst (start_model os_example env_ok (aria2c_path_of os_example)
                                     ''/data'' 2 (plan_example ! 1) s1))) = 2)"
proof -
  let ?te = "\<lambda>k::nat. if k = 0 then env_fail else env_ok"
  have h2: "''/data'' \<noteq> []" by simp
  have h3: "0 < length plan_example" by (simp add: length_plan_example)
  have h4: "\<not> stop_event app_started" by (simp add: app_started_def)
  have h5: "\<forall>i<0. \<exists>n. completes (?te i) n" by simp
  have h6: "completes (?te 0) 0" using env_fail_completes by simp
  have h7: "returncode (?te 0) \<noteq> 0" by (simp add: env_fail_def)
  have r: "returncode env_fail \<noteq> 0" by (simp add: env_fail_def)
  have st: "strip_ws (stderr_text env_fail) = ''errorCode=3''" by code_simp
  have n0: "ModelName (plan_example ! 0) = ''file-00001-of-00003''" by code_simp
  have sb: "\<not> stop_before (?te (Suc 0))" by (simp add: env_ok_def)
  have l1: "Suc 0 < length plan_example" by (simp add: length_plan_example)
  from C6_nonzero_exit_continues[where te = ?te and s = app_started and sessions = 2,
      OF os_example_exists h2 h3 h4 h5 h6 h7]
  obtain s1 l where s1:
    "download_in_thread os_example ?te (Some plan_example) ''/data'' 2 app_started
        = (case for_models os_example ?te (aria2c_path_of os_example) ''/data'' 2 (Suc 0)
                  (drop (Suc 0) plan_example) s1 of
             None \<Rightarrow> None
           | Some s2 \<Rightarrow>
               Some (set_downloading_state False
                       (put ''Download finished or cancelled.'' s2)))"
    "log_queue s1 = log_queue app_started @ l
               @ [''Running aria2c for: '' @ ModelName (plan_example ! 0)]
               @ forwarded (?te 0) 0 0
               @ [''aria2c error during download '' @ ModelName (plan_example ! 0) @ '': ''
                    @ strip_ws (stderr_text (?te 0))]"
    "spawned s1 = spawned app_started
           @ map (aria2c_call os_example (aria2c_path_of os_example) ''/data'' 2)
               (take (Suc 0) plan_example)"
    "aria2c_process s1 = None"
    "Suc 0 < length plan_example \<and> \<not> stop_before (?te (Suc 0)) \<longrightarrow>
           spawned (fst (start_model os_example (?te (Suc 0)) (aria2c_path_of os_example)
                           ''/data'' 2 (plan_example ! Suc 0) s1))
             = spawned s1 @ [aria2c_call os_example (aria2c_path_of os_example) ''/data'' 2
                               (plan_example ! Suc 0)]"
    by blast
  have ls: "length (spawned s1) = 1"
    by (simp add: s1(3) app_started_def length_plan_example)
  have nx: "length (spawned (fst (start_model os_example env_ok (aria2c_path_of os_example)
                                     ''/data'' 2 (plan_example ! 1) s1))) = 2"
    using s1(5) l1 sb ls by simp
  have lg: "\<exists>l. log_queue s1
                   = l @ [''Running aria2c for: file-00001-of-00003'',
                          ''aria2c error during download file-00001-of-00003: errorCode=3'']"
    by (rule exI[of _ l]) (simp add: s1(2) app_started_def n0 st forwarded_empty)
  have run: "download_in_thread os_example ?te (Some plan_example) ''/data'' 2 app_started
             = (case for_models os_example ?te
                       (aria2c_path_of os_example) ''/data'' 2 1 (drop 1 plan_example) s1 of
                  None \<Rightarrow> None
                | Some s2 \<Rightarrow>
                    Some (set_downloading_state False
                            (put ''Download finished or cancelled.'' s2)))"
    using s1(1) by simp
  show ?thesis
    using env_fail_completes r st run lg ls s1(4) nx by blast
qed

text \<open>
  Claim C7, as amended. In a run that ends, started with the event not set, in which
  the other thread does not set the event in the time before the first check of an
  entry (so that it is set, if at all, during a poll loop or before the check that
  follows one), the event is not set at the end: the worker has cleared it.
\<close>

theorem C7_event_cleared_unless_seen_before_task:
  assumes "download_in_thread os te plan download_directory sessions s = Some s'"
    and "\<not> stop_event s"
    and "\<forall>ms k. plan = Some ms \<and> k < length ms \<longrightarrow> \<not> stop_before (te k)"
  shows "\<not> stop_event s'"
proof (cases "\<not> path_exists os (aria2c_path_of os) \<or> plan = None \<or> plan = Some []
        \<or> download_directory = []")
  case True
  then have "stop_event s' = stop_event s"
    using assms(1)
    by (auto simp: download_in_thread_def Let_def put_def set_downloading_state_def
          split: option.splits list.splits if_splits)
  then show ?thesis using assms(2) by simp
next
  case False
  then obtain ms where ms: "plan = Some ms" "ms \<noteq> []" by (cases plan) auto
  have pe: "path_exists os (aria2c_path_of os)" and d: "download_directory \<noteq> []"
    using False by auto
  from assms(1) obtain s1 where
    f: "for_models os te (aria2c_path_of os) download_directory sessions 0 ms s = Some s1"
    and s': "s' = set_downloading_state False (put ''Download finished or cancelled.'' s1)"
    unfolding ms(1) download_in_thread_run[OF pe ms(2) d]
    by (auto split: option.splits)
  have sb: "\<forall>i<length ms. \<not> stop_before (te (0 + i))" using assms(3) ms(1) by simp
  have "\<not> stop_event s1" by (rule for_models_clears[OF f assms(2) sb])
  then show ?thesis by (simp add: s' set_downloading_state_def put_def)
qed

text \<open>A run in which the event is set during the poll loop of the second entry.\<close>

theorem C7_event_cleared_witness:
  "stopped_at env_stopped 1
   \<and> (\<exists>s'. download_in_thread os_example (\<lambda>k. if k = 1 then env_stopped else env_ok)
              (Some plan_example) ''/data'' 2 app_started = Some s'
          \<and> ''Stop signal received. Terminating process gracefully...'' \<in> set (log_queue s')
          \<and> \<not> stop_event s')"
proof -
  let ?te = "\<lambda>k::nat. if k = 1 then env_stopped else env_ok"
  have h2: "''/data'' \<noteq> []" by simp
  have h3: "1 < length plan_example" by (simp add: length_plan_example)
  have h4: "\<not> stop_event app_started" by (simp add: app_started_def)
  have h5: "\<forall>i<1. \<exists>n. completes (?te i) n" using env_ok_completes by auto
  have h6: "\<not> stop_before (?te 1)" by (simp add: env_stopped_def)
  have h7: "stopped_at (?te 1) 1" using env_stopped_at by simp
  have ne: "plan_example \<noteq> []" using length_plan_example by auto
  from for_models_stopped_run[OF h3 h4 h5 h6 h7,
      of os_example "aria2c_path_of os_example" "''/data''" 2]
  obtain s1 where s1:
    "for_models os_example ?te (aria2c_path_of os_example) ''/data'' 2 0 plan_example
       app_started = Some s1"
    "''Stop signal received. Terminating process gracefully...'' \<in> set (log_queue s1)"
    by blast
  let ?s' = "set_downloading_state False (put ''Download finished or cancelled.'' s1)"
  have run: "download_in_thread os_example ?te (Some plan_example) ''/data'' 2 app_started
               = Some ?s'"
    by (simp only: download_in_thread_run[OF os_example_exists ne h2] s1(1) option.case)
  have lg: "''Stop signal received. Terminating process gracefully...'' \<in> set (log_queue ?s')"
    using s1(2) by (simp add: set_downloading_state_def put_def)
  have nb: "\<forall>ms k. Some plan_example = Some ms \<and> k < length ms \<longrightarrow> \<not> stop_before (?te k)"
    by (simp add: env_stopped_def env_ok_def)
  have "\<not> stop_event ?s'"
    by (rule C7_event_cleared_unless_seen_before_task[OF run h4 nb])
  then show ?thesis using env_stopped_at run lg by blast
qed

text \<open>
  The claim as it was stated has the event cleared also when it is found set by the
  check before an entry. In this run the first entry completes and the event is set
  before the check of the second: the run ends with the message that the download is
  cancelled and with the event still set.
\<close>

theorem C7_event_left_set_counterexample:
  "\<exists>s'. download_in_thread os_example (\<lambda>k. if k = 1 then env_stop_before else env_ok)
           (Some plan_example) ''/data'' 2 app_started = Some s'
        \<and> ''Download cancelled for: file-00002-of-00003 (and subsequent downloads)''
            \<in> set (log_queue s')
        \<and> stop_event s' \<and> \<not> downloading s'"
proof -
  let ?te = "\<lambda>k::nat. if k = 1 then env_stop_before else env_ok"
  have h2: "''/data'' \<noteq> []" by simp
  have h3: "1 < length plan_example" by (simp add: length_plan_example)
  have h4: "\<not> stop_event app_started" by (simp add: app_started_def)
  have h5: "\<forall>i<1. \<exists>n. completes (?te i) n" using env_ok_completes by auto
  have h6: "stop_before (?te 1)" by (simp add: env_stop_before_def)
  have ne: "plan_example \<noteq> []" using length_plan_example by auto
  have n1: "ModelName (plan_example ! 1) = ''file-00002-of-00003''" by code_simp
  from for_models_stop_before_run[OF h3 h4 h5 h6,
      of os_example "aria2c_path_of os_example" "''/data''" 2]
  obtain s1 where s1:
    "for_models os_example ?te (aria2c_path_of os_example) ''/data'' 2 0 plan_example
       app_started = Some s1"
    "stop_event s1"
    "''Download cancelled for: '' @ ModelName (plan_example ! 1)
        @ '' (and subsequent downloads)'' \<in> set (log_queue s1)"
    by blast
  let ?s' = "set_downloading_state False (put ''Download finished or cancelled.'' s1)"
  have run: "download_in_thread os_example ?te (Some plan_example) ''/data'' 2 app_started
               = Some ?s'"
    by (simp only: download_in_thread_run[OF os_example_exists ne h2] s1(1) option.case)
  have lg: "''Download cancelled for: file-00002-of-00003 (and subsequent downloads)''
              \<in> set (log_queue ?s')"
    using s1(3) unfolding n1 by (simp add: set_downloading_state_def put_def)
  have se: "stop_event ?s'" using s1(2) by (simp add: set_downloading_state_def put_def)
  have dl: "\<not> downloading ?s'" by (simp add: set_downloading_state_def put_def)
  show ?thesis using run lg se dl by blast
qed

text \<open>
  Claim C8 says that the process held by the application is released after every entry,
  also after a cancellation. In the run below the event is set during the poll loop of
  the second entry; the run ends with the application still holding that process
  (\<^verbatim>\<open>break\<close> at line 224 leaves the loop before \<^verbatim>\<open>set_process(None)\<close> at line
  236).
\<close>

theorem C8_handle_kept_after_cancel:
  "\<exists>s'. download_in_thread os_example (\<lambda>k. if k = 1 then env_stopped else env_ok)
           (Some plan_example) ''/data'' 2 app_started = Some s'
        \<and> aria2c_process s' = Some 1 \<and> \<not> downloading s'"
proof -
  let ?te = "\<lambda>k::nat. if k = 1 then env_stopped else env_ok"
  have h2: "''/data'' \<noteq> []" by simp
  have h3: "1 < length plan_example" by (simp add: length_plan_example)
  have h4: "\<not> stop_event app_started" by (simp add: app_started_def)
  have h5: "\<forall>i<1. \<exists>n. completes (?te i) n" using env_ok_completes by auto
  have h6: "\<not> stop_before (?te 1)" by (simp add: env_stopped_def)
  have h7: "stopped_at (?te 1) 1" using env_stopped_at by simp
  have ne: "plan_example \<noteq> []" using length_plan_example by auto
  from for_models_stopped_run[OF h3 h4 h5 h6 h7,
      of os_example "aria2c_path_of os_example" "''/data''" 2]
  obtain s1 where s1:
    "for_models os_example ?te (aria2c_path_of os_example) ''/data'' 2 0 plan_example
       app_started = Some s1"
    "aria2c_process s1 = Some (length (spawned app_started) + 1)"
    by blast
  let ?s' = "set_downloading_state False (put ''Download finished or cancelled.'' s1)"
  have run: "download_in_thread os_example ?te (Some plan_example) ''/data'' 2 app_started
               = Some ?s'"
    by (simp only: download_in_thread_run[OF os_example_exists ne h2] s1(1) option.case)
  have ap: "aria2c_process ?s' = Some 1"
    using s1(2) by (simp add: set_downloading_state_def put_def app_started_def)
  have dl: "\<not> downloading ?s'" by (simp add: set_downloading_state_def put_def)
  show ?thesis using run ap dl by blast
qed

end
